theory Spec2Isabelle
  imports Complex_Main "HOL-Library.Sublist" "HOL-Library.Multiset" "HOL-Library.Log_Nat"
begin

section \<open>Python strings\<close>

text \<open>
  The scripts work on Python \<open>str\<close> values, sequences of code points. The model covers the
  code points U+0000 to U+00FF: a \<^typ>\<open>string\<close> is a list of \<^typ>\<open>char\<close>, one per code
  point, so \<^const>\<open>length\<close> is Python's \<open>len\<close>. On this range \<open>str.lower\<close> maps one code
  point to one code point and stays inside the range.
\<close>

definition isspace :: "char \<Rightarrow> bool" where
  \<comment> \<open>\<open>str.isspace\<close> on one code point: the characters \<open>strip()\<close> and \<open>split()\<close> treat as
      whitespace (TAB, LF, VT, FF, CR, FS, GS, RS, US, SPACE, NEL, NBSP).\<close>
  "isspace c = (of_char c \<in> {9, 10, 11, 12, 13, 28, 29, 30, 31, 32, 133, 160 :: nat})"

definition lower_char :: "char \<Rightarrow> char" where
  \<comment> \<open>A to Z, and U+00C0 to U+00DE without the multiplication sign U+00D7, move up by 32.\<close>
  "lower_char c =
     (let n = (of_char c :: nat)
      in if (65 \<le> n \<and> n \<le> 90) \<or> (192 \<le> n \<and> n \<le> 222 \<and> n \<noteq> 215)
         then char_of (n + 32) else c)"

definition lower :: "string \<Rightarrow> string" where
  "lower s = map lower_char s"

definition strip :: "string \<Rightarrow> string" where
  \<comment> \<open>\<open>s.strip()\<close>: whitespace removed at both ends.\<close>
  "strip s = rev (dropWhile isspace (rev (dropWhile isspace s)))"

function split :: "string \<Rightarrow> string list" where
  \<comment> \<open>\<open>s.split()\<close>: the maximal runs of non-whitespace, in order.\<close>
  "split [] = []"
| "split (c # cs) =
     (if isspace c then split cs
      else (c # takeWhile (\<lambda>x. \<not> isspace x) cs) # split (dropWhile (\<lambda>x. \<not> isspace x) cs))"
  by pat_completeness auto
termination
  by (relation "measure length") (auto simp: length_dropWhile_le le_imp_less_Suc)

fun contains :: "string \<Rightarrow> string \<Rightarrow> bool" where
  \<comment> \<open>\<open>sub in s\<close>: \<open>sub\<close> occurs in \<open>s\<close> as a contiguous substring.\<close>
  "contains sub [] = (sub = [])"
| "contains sub (c # cs) = (prefix sub (c # cs) \<or> contains sub cs)"

definition startswith :: "string \<Rightarrow> string \<Rightarrow> bool" where
  "startswith s pre = prefix pre s"

definition any_in :: "string list \<Rightarrow> string \<Rightarrow> bool" where
  \<comment> \<open>\<open>any(k in text for k in ks)\<close>\<close>
  "any_in ks text = list_ex (\<lambda>k. contains k text) ks"

section \<open>The JSON decoder behind \<open>json.loads\<close>\<close>

text \<open>
  \<open>safe_json_load\<close> calls \<open>json.loads\<close> with its defaults and catches \<open>Exception\<close>. The
  decoder is modelled as the standard library runs it: JSON whitespace is SPACE, TAB, LF
  and CR only; control characters inside a string are refused (\<open>strict=True\<close>); the literals
  \<open>NaN\<close>, \<open>Infinity\<close> and \<open>-Infinity\<close> are accepted; an integer literal of more than 4300
  digits raises \<open>ValueError\<close>; nesting deeper than the interpreter allows raises
  \<open>RecursionError\<close>. How deep that is depends on the recursion limit in force and on the
  frames already on the stack when the decoder is entered, so it is no constant of the
  model: every function from \<open>json_loads\<close> up takes the number \<open>depth\<close> of nested arrays and
  objects still allowed at that point, and the theorems hold for every \<open>depth\<close>. Decoded strings are lists of code points (an escape can denote a code point
  above U+00FF); a float is kept as its literal text; an object is kept as its list of
  pairs in source order.
\<close>

datatype json =
    JNull
  | JBool bool
  | JInt int
  | JFloat string
  | JStr "nat list"
  | JArr "json list"
  | JObj "(nat list \<times> json) list"

datatype exn = JSONDecodeError | RecursionError | ValueError | ZeroDivisionError

definition json_ws :: "char \<Rightarrow> bool" where
  "json_ws c = (of_char c \<in> {32, 9, 10, 13 :: nat})"

definition skip_ws :: "string \<Rightarrow> string" where
  "skip_ws s = dropWhile json_ws s"

definition isdigit :: "char \<Rightarrow> bool" where
  "isdigit c = (48 \<le> (of_char c :: nat) \<and> (of_char c :: nat) \<le> 57)"

definition hex_digit :: "char \<Rightarrow> nat option" where
  "hex_digit c =
     (let n = (of_char c :: nat)
      in if 48 \<le> n \<and> n \<le> 57 then Some (n - 48)
         else if 97 \<le> n \<and> n \<le> 102 then Some (n - 87)
         else if 65 \<le> n \<and> n \<le> 70 then Some (n - 55)
         else None)"

definition hex4 :: "char \<Rightarrow> char \<Rightarrow> char \<Rightarrow> char \<Rightarrow> nat option" where
  "hex4 a b c d =
     (case (hex_digit a, hex_digit b, hex_digit c, hex_digit d) of
        (Some w, Some x, Some y, Some z) \<Rightarrow> Some (((w * 16 + x) * 16 + y) * 16 + z)
      | _ \<Rightarrow> None)"

definition backslash :: "char \<Rightarrow> nat option" where
  \<comment> \<open>the one-character escapes\<close>
  "backslash e =
     (if e = CHR ''\"'' then Some 34 else if e = CHR 0x5C then Some 92
      else if e = CHR ''/'' then Some 47 else if e = CHR ''b'' then Some 8
      else if e = CHR ''f'' then Some 12 else if e = CHR ''n'' then Some 10
      else if e = CHR ''r'' then Some 13 else if e = CHR ''t'' then Some 9
      else None)"

definition high_surrogate :: "nat \<Rightarrow> bool" where
  "high_surrogate u = (0xD800 \<le> u \<and> u \<le> 0xDBFF)"

definition low_surrogate :: "nat \<Rightarrow> bool" where
  "low_surrogate u = (0xDC00 \<le> u \<and> u \<le> 0xDFFF)"

definition join_surrogates :: "nat \<Rightarrow> nat \<Rightarrow> nat" where
  "join_surrogates hi lo = 0x10000 + (hi - 0xD800) * 0x400 + (lo - 0xDC00)"

fun scanstring :: "string \<Rightarrow> nat list \<Rightarrow> exn + (nat list \<times> string)" where
  \<comment> \<open>The text after an opening quote, up to and including the closing quote.\<close>
  "scanstring [] acc = Inl JSONDecodeError"
| "scanstring (c # cs) acc =
     (if c = CHR ''\"'' then Inr (rev acc, cs)
      else if c = CHR 0x5C then
        (case cs of
           [] \<Rightarrow> Inl JSONDecodeError
         | e # es \<Rightarrow>
             if e = CHR ''u'' then
               (case es of
                  h1 # h2 # h3 # h4 # r \<Rightarrow>
                    (case hex4 h1 h2 h3 h4 of
                       None \<Rightarrow> Inl JSONDecodeError
                     | Some u \<Rightarrow>
                         (case r of
                            b # v # g1 # g2 # g3 # g4 # q # r' \<Rightarrow>
                              if high_surrogate u \<and> b = CHR 0x5C \<and> v = CHR ''u'' then
                                (case hex4 g1 g2 g3 g4 of
                                   None \<Rightarrow> Inl JSONDecodeError
                                 | Some u2 \<Rightarrow>
                                     if low_surrogate u2
                                     then scanstring (q # r') (join_surrogates u u2 # acc)
                                     else scanstring r (u # acc))
                              else scanstring r (u # acc)
                          | _ \<Rightarrow> scanstring r (u # acc)))
                | _ \<Rightarrow> Inl JSONDecodeError)
             else
               (case backslash e of
                  None \<Rightarrow> Inl JSONDecodeError
                | Some d \<Rightarrow> scanstring es (d # acc)))
      else if (of_char c :: nat) < 32 then Inl JSONDecodeError
      else scanstring cs (of_char c # acc))"

definition int_max_str_digits :: nat where
  "int_max_str_digits = 4300"

definition decimal :: "string \<Rightarrow> int" where
  "decimal ds = foldl (\<lambda>a c. 10 * a + (int (of_char c) - 48)) 0 ds"

definition int_part :: "string \<Rightarrow> (string \<times> string) option" where
  \<comment> \<open>\<open>0\<close>, or a non-zero digit followed by digits\<close>
  "int_part s =
     (case s of
        [] \<Rightarrow> None
      | c # cs \<Rightarrow>
          if c = CHR ''0'' then Some ([c], cs)
          else if isdigit c then Some (c # takeWhile isdigit cs, dropWhile isdigit cs)
          else None)"

definition frac_part :: "string \<Rightarrow> string \<times> string" where
  \<comment> \<open>a point followed by at least one digit, or nothing\<close>
  "frac_part s =
     (case s of
        p # d # cs \<Rightarrow>
          if p = CHR ''.'' \<and> isdigit d
          then (p # d # takeWhile isdigit cs, dropWhile isdigit cs) else ([], s)
      | _ \<Rightarrow> ([], s))"

definition exp_part :: "string \<Rightarrow> string \<times> string" where
  \<comment> \<open>\<open>e\<close> or \<open>E\<close>, an optional sign, at least one digit; or nothing\<close>
  "exp_part s =
     (case s of
        [] \<Rightarrow> ([], s)
      | e # cs \<Rightarrow>
          if e = CHR ''e'' \<or> e = CHR ''E'' then
            (let (sg, ds) = (case cs of
                               [] \<Rightarrow> ([], cs)
                             | g # gs \<Rightarrow> if g = CHR ''+'' \<or> g = CHR ''-'' then ([g], gs) else ([], cs))
             in if ds \<noteq> [] \<and> isdigit (hd ds)
                then (e # sg @ takeWhile isdigit ds, dropWhile isdigit ds) else ([], s))
          else ([], s))"

definition match_number :: "string \<Rightarrow> exn + (json \<times> string)" where
  "match_number s =
     (let (sg, r0) = (case s of
                        [] \<Rightarrow> ([], s)
                      | c # cs \<Rightarrow> if c = CHR ''-'' then ([c], cs) else ([], s))
      in case int_part r0 of
           None \<Rightarrow> Inl JSONDecodeError
         | Some (ip, r1) \<Rightarrow>
             (let (fp, r2) = frac_part r1; (ep, r3) = exp_part r2
              in if fp \<noteq> [] \<or> ep \<noteq> [] then Inr (JFloat (sg @ ip @ fp @ ep), r3)
                 else if int_max_str_digits < length ip then Inl ValueError
                 else Inr (JInt (if sg = [] then decimal ip else - decimal ip), r3)))"

definition parse_constant :: "string \<Rightarrow> exn + (json \<times> string)" where
  \<comment> \<open>the named constants, then the numbers\<close>
  "parse_constant s =
     (if prefix ''null'' s then Inr (JNull, drop 4 s)
      else if prefix ''true'' s then Inr (JBool True, drop 4 s)
      else if prefix ''false'' s then Inr (JBool False, drop 5 s)
      else if prefix ''NaN'' s then Inr (JFloat ''NaN'', drop 3 s)
      else if prefix ''Infinity'' s then Inr (JFloat ''Infinity'', drop 8 s)
      else if prefix ''-Infinity'' s then Inr (JFloat ''-Infinity'', drop 9 s)
      else match_number s)"

function scan_once :: "nat \<Rightarrow> string \<Rightarrow> exn + (json \<times> string)"
  and parse_array :: "nat \<Rightarrow> string \<Rightarrow> json list \<Rightarrow> exn + (json \<times> string)"
  and parse_object :: "nat \<Rightarrow> string \<Rightarrow> (nat list \<times> json) list \<Rightarrow> exn + (json \<times> string)"
where
  "scan_once d [] = Inl JSONDecodeError"
| "scan_once d (c # cs) =
     (if c = CHR ''\"'' then
        (case scanstring cs [] of Inl e \<Rightarrow> Inl e | Inr (v, r) \<Rightarrow> Inr (JStr v, r))
      else if c = CHR ''{'' then
        (if d = 0 then Inl RecursionError
         else if startswith (skip_ws cs) ''}'' then Inr (JObj [], tl (skip_ws cs))
         else parse_object (d - 1) (skip_ws cs) [])
      else if c = CHR ''['' then
        (if d = 0 then Inl RecursionError
         else if startswith (skip_ws cs) '']'' then Inr (JArr [], tl (skip_ws cs))
         else parse_array (d - 1) (skip_ws cs) [])
      else parse_constant (c # cs))"
| "parse_array d s acc =
     \<comment> \<open>one turn of the loop: a value, then \<open>]\<close> or a comma\<close>
     (case scan_once d s of
        Inl e \<Rightarrow> Inl e
      | Inr (v, r) \<Rightarrow>
          (case skip_ws r of
             [] \<Rightarrow> Inl JSONDecodeError
           | x # r' \<Rightarrow>
               if x = CHR '']'' then Inr (JArr (acc @ [v]), r')
               else if x = CHR '','' \<and> length (skip_ws r') < length s
               then parse_array d (skip_ws r') (acc @ [v])
               else Inl JSONDecodeError))"
| "parse_object d s acc =
     \<comment> \<open>one turn of the loop: a quoted key, a colon, a value, then \<open>}\<close> or a comma\<close>
     (case s of
        [] \<Rightarrow> Inl JSONDecodeError
      | q # ks \<Rightarrow>
          if q \<noteq> CHR ''\"'' then Inl JSONDecodeError
          else
            (case scanstring ks [] of
               Inl e \<Rightarrow> Inl e
             | Inr (k, r0) \<Rightarrow>
                 (case skip_ws r0 of
                    [] \<Rightarrow> Inl JSONDecodeError
                  | col # r1 \<Rightarrow>
                      if col \<noteq> CHR '':'' \<or> length s \<le> length (skip_ws r1) then Inl JSONDecodeError
                      else
                        (case scan_once d (skip_ws r1) of
                           Inl e \<Rightarrow> Inl e
                         | Inr (v, r) \<Rightarrow>
                             (case skip_ws r of
                                [] \<Rightarrow> Inl JSONDecodeError
                              | x # r' \<Rightarrow>
                                  if x = CHR ''}'' then Inr (JObj (acc @ [(k, v)]), r')
                                  else if x = CHR '','' \<and> length (skip_ws r') < length s
                                  then parse_object d (skip_ws r') (acc @ [(k, v)])
                                  else Inl JSONDecodeError)))))"
  by pat_completeness auto
termination
  by (relation "measure (\<lambda>x. case x of
          Inl (d, s) \<Rightarrow> 2 * length s
        | Inr (Inl (d, s, acc)) \<Rightarrow> 2 * length s + 1
        | Inr (Inr (d, s, acc)) \<Rightarrow> 2 * length s + 1)")
     (auto simp: skip_ws_def length_dropWhile_le le_imp_less_Suc)

definition json_loads :: "nat \<Rightarrow> string \<Rightarrow> exn + json" where
  \<comment> \<open>\<open>json.loads(s)\<close>: whitespace, one value, whitespace, end of text\<close>
  "json_loads depth s =
     (case scan_once depth (skip_ws s) of
        Inl e \<Rightarrow> Inl e
      | Inr (v, r) \<Rightarrow> if skip_ws r = [] then Inr v else Inl JSONDecodeError)"

section \<open>\<open>correctness_checkers.py\<close>: one prompt and its output\<close>

definition safe_json_load :: "nat \<Rightarrow> string \<Rightarrow> json" where
  \<comment> \<open>Every exception of the decoder is caught and becomes \<open>None\<close>, which is also the
      value the decoder gives for \<open>null\<close>: \<^const>\<open>JNull\<close> stands for Python's \<open>None\<close>.\<close>
  "safe_json_load depth s = (case json_loads depth s of Inl e \<Rightarrow> JNull | Inr v \<Rightarrow> v)"

definition looks_like_json :: "string \<Rightarrow> bool" where
  "looks_like_json text = (startswith (strip text) ''{'' \<or> startswith (strip text) ''['')"

definition is_math_expression :: "string \<Rightarrow> bool" where
  \<comment> \<open>\<open>re.search(r"[0-9+\-*/=]", text)\<close> finds a match\<close>
  "is_math_expression text = list_ex (\<lambda>c. isdigit c \<or> c \<in> set ''+-*/='') text"

record eval_result =
  category :: string
  correct :: bool
  output_len :: int

definition evaluate_row :: "nat \<Rightarrow> string \<Rightarrow> string \<Rightarrow> eval_result" where
  "evaluate_row depth prompt output =
     (let p_lower = lower prompt;
          out_lower = strip (lower output);
          n = int (length (split out_lower))
      in if contains ''derivative'' p_lower \<or> contains ''integral'' p_lower
            \<or> contains ''solve'' p_lower
         then \<lparr>category = ''math'',
               correct = (any_in [''x'', ''y'', ''='', ''dx'', ''dy'', ''6x'', ''2x''] out_lower
                          \<or> is_math_expression out_lower),
               output_len = n\<rparr>
         else if contains ''python'' p_lower \<or> contains ''code'' p_lower
                 \<or> contains ''function'' p_lower
         then \<lparr>category = ''code'',
               correct = any_in [''def '', ''return'', ''for '', ''while ''] out_lower,
               output_len = n\<rparr>
         else if contains ''json'' p_lower \<or> contains ''object'' p_lower
                 \<or> contains ''key'' p_lower
         then \<lparr>category = ''json'',
               correct = (if looks_like_json output then safe_json_load depth output \<noteq> JNull
                          else False),
               output_len = n\<rparr>
         else if contains ''story'' p_lower \<or> contains ''write'' p_lower
                 \<or> contains ''poem'' p_lower
         then \<lparr>category = ''writing'',
               correct = (10 < length (split out_lower) \<and> contains ''.'' out_lower),
               output_len = n\<rparr>
         else \<lparr>category = ''general'',
               correct = (5 < length out_lower
                          \<and> any_in (take 3 (split p_lower)) out_lower),
               output_len = n\<rparr>)"

text \<open>
  The specification's reading of the \<open>general\<close> rule, for comparison with the code: the
  output and the first three prompt tokens have a whitespace-delimited token in common.
\<close>

definition spec_general_correct :: "string \<Rightarrow> string \<Rightarrow> bool" where
  "spec_general_correct prompt output =
     (5 < length (strip (lower output))
      \<and> set (split (strip (lower output))) \<inter> set (take 3 (split (lower prompt))) \<noteq> {})"

section \<open>\<open>evaluate_row\<close> with every call into the library able to raise\<close>

text \<open>
  Whether \<open>evaluate_row\<close> can raise is a question about its calls into the library: the
  methods of \<open>str\<close>, the operator \<open>in\<close>, \<open>len\<close>, \<open>re.search\<close> and \<open>json.loads\<close>. Here the
  function is embedded a second time, statement by statement, with each of these calls a
  computation that returns a value or raises. The operators \<open>or\<close> and \<open>and\<close> and
  the function \<open>any\<close> evaluate no more operands than Python does, and
  \<open>try\<close> ... \<open>except Exception\<close> is the one place where a raised exception becomes a value.
  The library is a parameter and so is the type of strings: nothing is fixed about the
  code points of a \<open>str\<close>, nor about the text that the decoder accepts. Every exception of
  type \<^typ>\<open>exn\<close> is a subclass of \<open>Exception\<close>.
\<close>

record 's library =
  literal :: "string \<Rightarrow> 's"
  str_lower :: "'s \<Rightarrow> exn + 's"
  str_strip :: "'s \<Rightarrow> exn + 's"
  str_split :: "'s \<Rightarrow> exn + 's list"
  str_in :: "'s \<Rightarrow> 's \<Rightarrow> exn + bool"
  str_startswith :: "'s \<Rightarrow> 's \<Rightarrow> exn + bool"
  str_len :: "'s \<Rightarrow> exn + nat"
  re_search :: "'s \<Rightarrow> exn + bool"
  loads :: "'s \<Rightarrow> exn + json"

definition then_do :: "exn + 'a \<Rightarrow> ('a \<Rightarrow> exn + 'b) \<Rightarrow> exn + 'b" where
  \<comment> \<open>one statement after another: an exception raised by the first ends the evaluation\<close>
  "then_do m f = (case m of Inl e \<Rightarrow> Inl e | Inr x \<Rightarrow> f x)"

fun any_of :: "('a \<Rightarrow> exn + bool) \<Rightarrow> 'a list \<Rightarrow> exn + bool" where
  \<comment> \<open>\<open>any(f(x) for x in xs)\<close>, and \<open>f(x1) or f(x2) or f(x3)\<close>: stops at the first true\<close>
  "any_of f [] = Inr False"
| "any_of f (x # xs) = then_do (f x) (\<lambda>b. if b then Inr True else any_of f xs)"

definition safe_json_load_in :: "'s library \<Rightarrow> 's \<Rightarrow> exn + json" where
  \<comment> \<open>\<open>try: return json.loads(s)\<close>, \<open>except Exception: return None\<close>\<close>
  "safe_json_load_in L s = (case loads L s of Inl e \<Rightarrow> Inr JNull | Inr v \<Rightarrow> Inr v)"

definition looks_like_json_in :: "'s library \<Rightarrow> 's \<Rightarrow> exn + bool" where
  "looks_like_json_in L text =
     then_do (str_strip L text) (\<lambda>t.
     then_do (str_startswith L t (literal L ''{'')) (\<lambda>b.
       if b then Inr True else str_startswith L t (literal L ''['')))"

definition is_math_expression_in :: "'s library \<Rightarrow> 's \<Rightarrow> exn + bool" where
  \<comment> \<open>\<open>re_search\<close> is \<open>re.search(r"[0-9+\-*/=]", text)\<close> followed by \<open>bool\<close>\<close>
  "is_math_expression_in L text = re_search L text"

definition result_in :: "'s library \<Rightarrow> string \<Rightarrow> bool \<Rightarrow> 's \<Rightarrow> exn + eval_result" where
  \<comment> \<open>the \<open>return\<close> statement, which splits \<open>out_lower\<close> for \<open>output_len\<close>\<close>
  "result_in L cat correctness out_lower =
     then_do (str_split L out_lower) (\<lambda>ws.
       Inr \<lparr>category = cat, correct = correctness, output_len = int (length ws)\<rparr>)"

definition evaluate_row_in :: "'s library \<Rightarrow> 's \<Rightarrow> 's \<Rightarrow> exn + eval_result" where
  "evaluate_row_in L prompt output =
     then_do (str_lower L prompt) (\<lambda>p_lower.
     then_do (then_do (str_lower L output) (str_strip L)) (\<lambda>out_lower.
     then_do (any_of (\<lambda>k. str_in L (literal L k) p_lower)
                [''derivative'', ''integral'', ''solve'']) (\<lambda>is_math.
     if is_math then
       then_do (then_do (any_of (\<lambda>sym. str_in L (literal L sym) out_lower)
                           [''x'', ''y'', ''='', ''dx'', ''dy'', ''6x'', ''2x''])
                  (\<lambda>b. if b then Inr True else is_math_expression_in L out_lower))
         (\<lambda>correctness. result_in L ''math'' correctness out_lower)
     else
     then_do (any_of (\<lambda>k. str_in L (literal L k) p_lower)
                [''python'', ''code'', ''function'']) (\<lambda>is_code.
     if is_code then
       then_do (any_of (\<lambda>k. str_in L (literal L k) out_lower)
                  [''def '', ''return'', ''for '', ''while ''])
         (\<lambda>correctness. result_in L ''code'' correctness out_lower)
     else
     then_do (any_of (\<lambda>k. str_in L (literal L k) p_lower)
                [''json'', ''object'', ''key'']) (\<lambda>is_json.
     if is_json then
       then_do (then_do (looks_like_json_in L output)
                  (\<lambda>l. if l then then_do (safe_json_load_in L output) (\<lambda>v. Inr (v \<noteq> JNull))
                       else Inr False))
         (\<lambda>correctness. result_in L ''json'' correctness out_lower)
     else
     then_do (any_of (\<lambda>k. str_in L (literal L k) p_lower)
                [''story'', ''write'', ''poem'']) (\<lambda>is_writing.
     if is_writing then
       then_do (then_do (str_split L out_lower)
                  (\<lambda>ws. if 10 < length ws then str_in L (literal L ''.'') out_lower
                        else Inr False))
         (\<lambda>correctness. result_in L ''writing'' correctness out_lower)
     else
       then_do (then_do (str_len L out_lower)
                  (\<lambda>n. if 5 < n
                       then then_do (str_split L p_lower)
                              (\<lambda>ws. any_of (\<lambda>w. str_in L w out_lower) (take 3 ws))
                       else Inr False))
         (\<lambda>correctness. result_in L ''general'' correctness out_lower)))))))"

definition returns :: "exn + 'a \<Rightarrow> bool" where
  "returns m = (case m of Inl e \<Rightarrow> False | Inr x \<Rightarrow> True)"

definition str_methods_return :: "'s library \<Rightarrow> bool" where
  \<comment> \<open>what the claim takes from the library: on \<open>str\<close> arguments \<open>lower\<close>, \<open>strip\<close>,
      \<open>split\<close>, \<open>in\<close>, \<open>startswith\<close>, \<open>len\<close> and \<open>re.search\<close> return. Nothing is asked of
      \<open>json.loads\<close>.\<close>
  "str_methods_return L =
     ((\<forall>s. returns (str_lower L s)) \<and> (\<forall>s. returns (str_strip L s))
      \<and> (\<forall>s. returns (str_split L s)) \<and> (\<forall>sub s. returns (str_in L sub s))
      \<and> (\<forall>s pre. returns (str_startswith L s pre)) \<and> (\<forall>s. returns (str_len L s))
      \<and> (\<forall>s. returns (re_search L s)))"

definition latin1 :: "nat \<Rightarrow> string library" where
  \<comment> \<open>the library of the sections above: strings of code points up to U+00FF, and the
      decoder entered with \<open>depth\<close> levels of nesting left\<close>
  "latin1 depth =
     \<lparr>literal = (\<lambda>s. s),
      str_lower = (\<lambda>s. Inr (lower s)),
      str_strip = (\<lambda>s. Inr (strip s)),
      str_split = (\<lambda>s. Inr (split s)),
      str_in = (\<lambda>sub s. Inr (contains sub s)),
      str_startswith = (\<lambda>s pre. Inr (startswith s pre)),
      str_len = (\<lambda>s. Inr (length s)),
      re_search = (\<lambda>s. Inr (is_math_expression s)),
      loads = json_loads depth\<rparr>"

section \<open>\<open>correctness_checkers.py\<close>: the run\<close>

text \<open>
  \<open>category_stats\<close> is a Python dict from category to \<open>{"total": _, "correct": _}\<close>. It is
  modelled as an association list in insertion order, which is the order \<open>items()\<close> walks.
\<close>

record cat_stats =
  cat_total :: int
  cat_correct :: int

type_synonym stats_dict = "(string \<times> cat_stats) list"

fun setdefault :: "stats_dict \<Rightarrow> string \<Rightarrow> cat_stats \<Rightarrow> stats_dict" where
  \<comment> \<open>\<open>d.setdefault(k, v)\<close>: a new key goes to the end, a present key keeps its value\<close>
  "setdefault [] k v = [(k, v)]"
| "setdefault ((k', v') # d) k v =
     (if k' = k then (k', v') # d else (k', v') # setdefault d k v)"

fun update_at :: "string \<Rightarrow> (cat_stats \<Rightarrow> cat_stats) \<Rightarrow> stats_dict \<Rightarrow> stats_dict" where
  \<comment> \<open>\<open>d[k][field] += 1\<close> on a key that is present (it always follows \<open>setdefault\<close>)\<close>
  "update_at k f [] = []"
| "update_at k f ((k', v') # d) =
     (if k' = k then (k', f v') # d else (k', v') # update_at k f d)"

record run_state =
  correct_count :: int
  category_stats :: stats_dict

definition fold_result :: "run_state \<Rightarrow> eval_result \<Rightarrow> run_state" where
  \<comment> \<open>the body of the loop over the rows, after \<open>evaluate_row\<close> has returned \<open>res\<close>\<close>
  "fold_result st res =
     (let c = (if correct res then correct_count st + 1 else correct_count st);
          cat = category res;
          d0 = setdefault (category_stats st) cat \<lparr>cat_total = 0, cat_correct = 0\<rparr>;
          d1 = update_at cat (\<lambda>v. v\<lparr>cat_total := cat_total v + 1\<rparr>) d0;
          d2 = (if correct res
                then update_at cat (\<lambda>v. v\<lparr>cat_correct := cat_correct v + 1\<rparr>) d1 else d1)
      in \<lparr>correct_count = c, category_stats = d2\<rparr>)"

definition accumulate :: "eval_result list \<Rightarrow> run_state" where
  "accumulate results = foldl fold_result \<lparr>correct_count = 0, category_stats = []\<rparr> results"

subsection \<open>Floating point\<close>

text \<open>
  A Python float is modelled by the rational number it denotes. Each operation gives the
  exact result rounded to the nearest number with a 53-bit significand, ties to even.
  The exponent range is not modelled: the counters are lengths of lists in memory, so a
  quotient of two of them is zero or far inside the normal range.
\<close>

definition round_half_even :: "rat \<Rightarrow> int" where
  "round_half_even q =
     (let f = \<lfloor>q\<rfloor>; r = q - of_int f
      in if r < 1 / 2 then f else if 1 / 2 < r then f + 1
         else if even f then f else f + 1)"

definition ilog2 :: "rat \<Rightarrow> int" where
  \<comment> \<open>the integer \<open>k\<close> with \<open>2 ^ k \<le> q < 2 ^ (k + 1)\<close>, for positive \<open>q\<close>\<close>
  "ilog2 q =
     (let (a, b) = quotient_of q;
          k = bitlen a - bitlen b
      in if 2 powi k \<le> q then k else k - 1)"

definition fl :: "rat \<Rightarrow> rat" where
  "fl q =
     (if q = 0 then 0
      else (let e = ilog2 \<bar>q\<bar> - 52 in of_int (round_half_even (q / 2 powi e)) * 2 powi e))"

definition truediv :: "int \<Rightarrow> int \<Rightarrow> exn + rat" where
  \<comment> \<open>\<open>a / b\<close> on ints\<close>
  "truediv a b = (if b = 0 then Inl ZeroDivisionError else Inr (fl (of_int a / of_int b)))"

definition fmul :: "rat \<Rightarrow> rat \<Rightarrow> rat" where
  "fmul x y = fl (x * y)"

definition round2 :: "rat \<Rightarrow> rat" where
  \<comment> \<open>\<open>round(x, 2)\<close>: the nearest two-decimal number, ties to even, then the nearest float\<close>
  "round2 x = fl (of_int (round_half_even (x * 100)) / 100)"

definition percent :: "int \<Rightarrow> int \<Rightarrow> exn + rat" where
  \<comment> \<open>\<open>round((c / t) * 100, 2)\<close>\<close>
  "percent c t = (case truediv c t of Inl e \<Rightarrow> Inl e | Inr q \<Rightarrow> Inr (round2 (fmul q 100)))"

subsection \<open>The report\<close>

datatype pyval =
    PInt int
  | PFloat rat
  | PStr string
  | PDict "(string \<times> pyval) list"

fun dict_keys :: "pyval \<Rightarrow> string list" where
  "dict_keys (PDict kvs) = map fst kvs"
| "dict_keys _ = []"

definition basename :: "string \<Rightarrow> string" where
  \<comment> \<open>\<open>os.path.basename\<close>: what follows the last slash\<close>
  "basename path = rev (takeWhile (\<lambda>c. c \<noteq> CHR ''/'') (rev path))"

fun per_category :: "stats_dict \<Rightarrow> exn + (string \<times> pyval) list" where
  \<comment> \<open>the loop over \<open>category_stats.items()\<close> in \<open>main\<close>\<close>
  "per_category [] = Inr []"
| "per_category ((cat, stats) # d) =
     (case (if cat_total stats \<noteq> 0
            then (case percent (cat_correct stats) (cat_total stats) of
                    Inl e \<Rightarrow> Inl e | Inr a \<Rightarrow> Inr (PFloat a))
            else Inr (PInt 0)) of
        Inl e \<Rightarrow> Inl e
      | Inr acc \<Rightarrow>
          (case per_category d of
             Inl e \<Rightarrow> Inl e
           | Inr entries \<Rightarrow>
               Inr ((cat, PDict [(''accuracy_percent'', acc),
                                 (''correct'', PInt (cat_correct stats)),
                                 (''total'', PInt (cat_total stats))]) # entries)))"

datatype outcome = NoData | Written pyval | Raised exn

definition main :: "nat \<Rightarrow> string \<Rightarrow> (string \<times> string) list \<Rightarrow> outcome" where
  \<comment> \<open>\<open>main\<close> from the point where the rows of the CSV file have been read, each row as
      its \<open>prompt\<close> and \<open>output\<close> columns; \<open>Written\<close> holds what goes to
      \<open>correctness_summary.json\<close>.\<close>
  "main depth csv_path rows =
     (if rows = [] then NoData
      else
        (let total = int (length rows);
             st = accumulate (map (\<lambda>(prompt, output). evaluate_row depth prompt output) rows)
         in case percent (correct_count st) total of
              Inl e \<Rightarrow> Raised e
            | Inr overall_acc \<Rightarrow>
                (case per_category (category_stats st) of
                   Inl e \<Rightarrow> Raised e
                 | Inr entries \<Rightarrow>
                     Written (PDict [(''file'', PStr (basename csv_path)),
                                     (''total'', PInt total),
                                     (''correct'', PInt (correct_count st)),
                                     (''accuracy_percent'', PFloat overall_acc),
                                     (''per_category'', PDict entries)]))))"

section \<open>\<open>model_runner_baseline.py\<close>: its own \<open>correctness_summary.json\<close>\<close>

definition runner_step :: "nat \<Rightarrow> stats_dict \<Rightarrow> string \<times> string \<Rightarrow> stats_dict" where
  \<comment> \<open>the body of the loop that fills \<open>cats\<close>\<close>
  "runner_step depth cats row =
     (let res = evaluate_row depth (fst row) (snd row);
          cat = category res;
          d0 = setdefault cats cat \<lparr>cat_total = 0, cat_correct = 0\<rparr>;
          d1 = update_at cat (\<lambda>v. v\<lparr>cat_total := cat_total v + 1\<rparr>) d0
      in if correct res
         then update_at cat (\<lambda>v. v\<lparr>cat_correct := cat_correct v + 1\<rparr>) d1 else d1)"

fun runner_entries :: "stats_dict \<Rightarrow> exn + (string \<times> pyval) list" where
  \<comment> \<open>the dict comprehension over \<open>cats.items()\<close>; the division is not guarded here\<close>
  "runner_entries [] = Inr []"
| "runner_entries ((k, v) # d) =
     (case percent (cat_correct v) (cat_total v) of
        Inl e \<Rightarrow> Inl e
      | Inr a \<Rightarrow>
          (case runner_entries d of
             Inl e \<Rightarrow> Inl e
           | Inr entries \<Rightarrow>
               Inr ((k, PDict [(''accuracy_percent'', PFloat a),
                               (''correct'', PInt (cat_correct v)),
                               (''total'', PInt (cat_total v))]) # entries)))"

definition cat_summary :: "nat \<Rightarrow> pyval \<Rightarrow> (string \<times> string) list \<Rightarrow> exn + pyval" where
  \<comment> \<open>\<open>accuracy_percent\<close> is \<open>summary["accuracy_percent"]\<close>, computed earlier in the script;
      \<open>rows\<close> are the rows read back from \<open>outputs.csv\<close>.\<close>
  "cat_summary depth accuracy_percent rows =
     (case runner_entries (foldl (runner_step depth) [] rows) of
        Inl e \<Rightarrow> Inl e
      | Inr entries \<Rightarrow>
          Inr (PDict [(''overall_accuracy'', accuracy_percent),
                      (''per_category'', PDict entries)]))"

section \<open>Facts about the string operations\<close>

lemma contains_sublist: "contains sub s \<longleftrightarrow> sublist sub s"
  by (induction s) (simp_all add: sublist_Cons_right)

lemma any_in_sublist: "any_in ks text \<longleftrightarrow> (\<exists>k\<in>set ks. sublist k text)"
  by (simp add: any_in_def list_ex_iff contains_sublist)

lemma contains_single: "contains [c] s \<longleftrightarrow> c \<in> set s"
  by (induction s) auto

lemma isdigit_set: "isdigit c \<longleftrightarrow> c \<in> set ''0123456789''"
  by (cases c) (auto simp: isdigit_def)

lemma split_dropWhile: "split (dropWhile isspace s) = split s"
  by (induction s) simp_all

lemma split_spaces: "\<forall>x\<in>set ws. isspace x \<Longrightarrow> split ws = []"
  by (induction ws) simp_all

lemma takeWhile_spaces: "\<forall>x\<in>set ws. isspace x \<Longrightarrow> takeWhile (\<lambda>x. \<not> isspace x) ws = []"
  by (cases ws) simp_all

lemma dropWhile_spaces: "\<forall>x\<in>set ws. isspace x \<Longrightarrow> dropWhile (\<lambda>x. \<not> isspace x) ws = ws"
  by (cases ws) simp_all

lemma takeWhile_append_spaces:
  "\<forall>x\<in>set ws. isspace x \<Longrightarrow>
     takeWhile (\<lambda>x. \<not> isspace x) (cs @ ws) = takeWhile (\<lambda>x. \<not> isspace x) cs"
  by (induction cs) (simp_all add: takeWhile_spaces)

lemma dropWhile_append_spaces:
  "\<forall>x\<in>set ws. isspace x \<Longrightarrow>
     dropWhile (\<lambda>x. \<not> isspace x) (cs @ ws) = dropWhile (\<lambda>x. \<not> isspace x) cs @ ws"
  by (induction cs) (simp_all add: dropWhile_spaces)

lemma split_append_spaces: "\<forall>x\<in>set ws. isspace x \<Longrightarrow> split (s @ ws) = split s"
proof (induction s rule: split.induct)
  case 1
  then show ?case by (simp add: split_spaces)
next
  case (2 c cs)
  then show ?case
    by (simp add: takeWhile_append_spaces dropWhile_append_spaces)
qed

lemma rstrip_decomp:
  "rev (dropWhile isspace (rev s)) @ rev (takeWhile isspace (rev s)) = s"
proof -
  have "rev (dropWhile isspace (rev s)) @ rev (takeWhile isspace (rev s))
        = rev (takeWhile isspace (rev s) @ dropWhile isspace (rev s))"
    by (simp only: rev_append)
  also have "\<dots> = rev (rev s)"
    by (simp only: takeWhile_dropWhile_id)
  finally show ?thesis by simp
qed

lemma split_rstrip: "split (rev (dropWhile isspace (rev s))) = split s"
proof -
  have "\<forall>x\<in>set (rev (takeWhile isspace (rev s))). isspace x"
    by (auto dest: set_takeWhileD)
  then have "split (rev (dropWhile isspace (rev s)) @ rev (takeWhile isspace (rev s)))
             = split (rev (dropWhile isspace (rev s)))"
    by (rule split_append_spaces)
  then show ?thesis using rstrip_decomp [of s] by simp
qed

lemma split_strip: "split (strip s) = split s"
  by (simp add: strip_def split_rstrip split_dropWhile)

lemma set_dropWhile_nonspace:
  "\<not> isspace c \<Longrightarrow> c \<in> set (dropWhile isspace s) \<longleftrightarrow> c \<in> set s"
  by (induction s) auto

lemma set_strip_nonspace: "\<not> isspace c \<Longrightarrow> c \<in> set (strip s) \<longleftrightarrow> c \<in> set s"
  by (simp add: strip_def set_dropWhile_nonspace)

section \<open>The verdict of each category\<close>

lemma evaluate_row_alt:
  "evaluate_row depth prompt output =
     (if any_in [''derivative'', ''integral'', ''solve''] (lower prompt)
      then \<lparr>category = ''math'',
            correct = (any_in [''x'', ''y'', ''='', ''dx'', ''dy'', ''6x'', ''2x'']
                         (strip (lower output))
                       \<or> is_math_expression (strip (lower output))),
            output_len = int (length (split (strip (lower output))))\<rparr>
      else if any_in [''python'', ''code'', ''function''] (lower prompt)
      then \<lparr>category = ''code'',
            correct = any_in [''def '', ''return'', ''for '', ''while ''] (strip (lower output)),
            output_len = int (length (split (strip (lower output))))\<rparr>
      else if any_in [''json'', ''object'', ''key''] (lower prompt)
      then \<lparr>category = ''json'',
            correct = (looks_like_json output \<and> safe_json_load depth output \<noteq> JNull),
            output_len = int (length (split (strip (lower output))))\<rparr>
      else if any_in [''story'', ''write'', ''poem''] (lower prompt)
      then \<lparr>category = ''writing'',
            correct = (10 < length (split (strip (lower output)))
                       \<and> contains ''.'' (strip (lower output))),
            output_len = int (length (split (strip (lower output))))\<rparr>
      else \<lparr>category = ''general'',
            correct = (5 < length (strip (lower output))
                       \<and> any_in (take 3 (split (lower prompt))) (strip (lower output))),
            output_len = int (length (split (strip (lower output))))\<rparr>)"
  by (simp add: evaluate_row_def Let_def any_in_def)

lemma category_cases:
  "category (evaluate_row depth prompt output) =
     (if any_in [''derivative'', ''integral'', ''solve''] (lower prompt) then ''math''
      else if any_in [''python'', ''code'', ''function''] (lower prompt) then ''code''
      else if any_in [''json'', ''object'', ''key''] (lower prompt) then ''json''
      else if any_in [''story'', ''write'', ''poem''] (lower prompt) then ''writing''
      else ''general'')"
  unfolding evaluate_row_alt by simp

lemma correct_math:
  assumes "category (evaluate_row depth prompt output) = ''math''"
  shows "correct (evaluate_row depth prompt output) =
     (any_in [''x'', ''y'', ''='', ''dx'', ''dy'', ''6x'', ''2x''] (strip (lower output))
      \<or> is_math_expression (strip (lower output)))"
proof -
  have "any_in [''derivative'', ''integral'', ''solve''] (lower prompt)"
    using assms unfolding category_cases by (simp split: if_splits)
  then show ?thesis unfolding evaluate_row_alt by simp
qed

lemma correct_json:
  assumes "category (evaluate_row depth prompt output) = ''json''"
  shows "correct (evaluate_row depth prompt output) =
     (looks_like_json output \<and> safe_json_load depth output \<noteq> JNull)"
proof -
  have "\<not> any_in [''derivative'', ''integral'', ''solve''] (lower prompt)
        \<and> \<not> any_in [''python'', ''code'', ''function''] (lower prompt)
        \<and> any_in [''json'', ''object'', ''key''] (lower prompt)"
    using assms unfolding category_cases by (simp split: if_splits)
  then show ?thesis unfolding evaluate_row_alt by simp
qed

lemma correct_writing:
  assumes "category (evaluate_row depth prompt output) = ''writing''"
  shows "correct (evaluate_row depth prompt output) =
     (10 < length (split (strip (lower output))) \<and> contains ''.'' (strip (lower output)))"
proof -
  have "\<not> any_in [''derivative'', ''integral'', ''solve''] (lower prompt)
        \<and> \<not> any_in [''python'', ''code'', ''function''] (lower prompt)
        \<and> \<not> any_in [''json'', ''object'', ''key''] (lower prompt)
        \<and> any_in [''story'', ''write'', ''poem''] (lower prompt)"
    using assms unfolding category_cases by (simp split: if_splits)
  then show ?thesis unfolding evaluate_row_alt by simp
qed

lemma correct_general:
  assumes "category (evaluate_row depth prompt output) = ''general''"
  shows "correct (evaluate_row depth prompt output) =
     (5 < length (strip (lower output))
      \<and> any_in (take 3 (split (lower prompt))) (strip (lower output)))"
proof -
  have "\<not> any_in [''derivative'', ''integral'', ''solve''] (lower prompt)
        \<and> \<not> any_in [''python'', ''code'', ''function''] (lower prompt)
        \<and> \<not> any_in [''json'', ''object'', ''key''] (lower prompt)
        \<and> \<not> any_in [''story'', ''write'', ''poem''] (lower prompt)"
    using assms unfolding category_cases by (simp split: if_splits)
  then show ?thesis unfolding evaluate_row_alt by simp
qed

lemma period_not_space: "\<not> isspace CHR ''.''"
  by (simp add: isspace_def)

text \<open>
  C1. The category is decided by the first keyword rule that matches the lower-cased
  prompt, in the order math, code, json, writing, with general as the default; the output
  plays no part. "Please write a python function" matches rules 2 and 4 and is code.
\<close>

theorem classify_first_match:
  "category (evaluate_row depth prompt output) =
     (if \<exists>k\<in>set [''derivative'', ''integral'', ''solve'']. sublist k (lower prompt)
      then ''math''
      else if \<exists>k\<in>set [''python'', ''code'', ''function'']. sublist k (lower prompt)
      then ''code''
      else if \<exists>k\<in>set [''json'', ''object'', ''key'']. sublist k (lower prompt)
      then ''json''
      else if \<exists>k\<in>set [''story'', ''write'', ''poem'']. sublist k (lower prompt)
      then ''writing''
      else ''general'')
   \<and> category (evaluate_row depth ''Please write a python function'' output) = ''code''"
proof
  show "category (evaluate_row depth prompt output) =
     (if \<exists>k\<in>set [''derivative'', ''integral'', ''solve'']. sublist k (lower prompt)
      then ''math''
      else if \<exists>k\<in>set [''python'', ''code'', ''function'']. sublist k (lower prompt)
      then ''code''
      else if \<exists>k\<in>set [''json'', ''object'', ''key'']. sublist k (lower prompt)
      then ''json''
      else if \<exists>k\<in>set [''story'', ''write'', ''poem'']. sublist k (lower prompt)
      then ''writing''
      else ''general'')"
    unfolding category_cases any_in_sublist ..
  have a1: "\<not> any_in [''derivative'', ''integral'', ''solve'']
                (lower ''Please write a python function'')"
    by code_simp
  have a2: "any_in [''python'', ''code'', ''function'']
                (lower ''Please write a python function'')"
    by code_simp
  show "category (evaluate_row depth ''Please write a python function'' output) = ''code''"
    unfolding category_cases using a1 a2 by (simp only: if_True if_False)
qed

theorem classify_first_match_witness:
  "category (evaluate_row 100 ''Write a poem about JSON keys'' ''x'') = ''json''"
proof -
  have a1: "\<not> (\<exists>k\<in>set [''derivative'', ''integral'', ''solve''].
                  sublist k (lower ''Write a poem about JSON keys''))"
    unfolding any_in_sublist [symmetric] by code_simp
  have a2: "\<not> (\<exists>k\<in>set [''python'', ''code'', ''function''].
                  sublist k (lower ''Write a poem about JSON keys''))"
    unfolding any_in_sublist [symmetric] by code_simp
  have a3: "\<exists>k\<in>set [''json'', ''object'', ''key''].
                  sublist k (lower ''Write a poem about JSON keys'')"
    unfolding any_in_sublist [symmetric] by code_simp
  from classify_first_match [of 100 "''Write a poem about JSON keys''" "''x''", THEN conjunct1]
  show ?thesis using a1 a2 a3 by (simp only: if_True if_False)
qed

text \<open>
  C2. For a math prompt the verdict is true exactly when the lower-cased, trimmed output
  contains one of the substrings x, y, =, dx, dy, 6x, 2x, or a character of the class
  \<open>[0-9+\-*/=]\<close>. "Solve for x" with the output "42" is math and correct.
\<close>

theorem math_verdict:
  "(category (evaluate_row depth prompt output) = ''math'' \<longrightarrow>
      correct (evaluate_row depth prompt output) =
        ((\<exists>k\<in>set [''x'', ''y'', ''='', ''dx'', ''dy'', ''6x'', ''2x''].
             sublist k (strip (lower output)))
         \<or> (\<exists>c\<in>set (strip (lower output)). c \<in> set ''0123456789+-*/='')))
   \<and> category (evaluate_row depth ''Solve for x'' ''42'') = ''math''
   \<and> correct (evaluate_row depth ''Solve for x'' ''42'')"
proof (intro conjI impI)
  assume m: "category (evaluate_row depth prompt output) = ''math''"
  have "is_math_expression s = (\<exists>c\<in>set s. c \<in> set ''0123456789+-*/='')" for s
    unfolding is_math_expression_def list_ex_iff isdigit_set by auto
  then show "correct (evaluate_row depth prompt output) =
        ((\<exists>k\<in>set [''x'', ''y'', ''='', ''dx'', ''dy'', ''6x'', ''2x''].
             sublist k (strip (lower output)))
         \<or> (\<exists>c\<in>set (strip (lower output)). c \<in> set ''0123456789+-*/=''))"
    unfolding correct_math [OF m] any_in_sublist by (simp only:)
next
  have a: "any_in [''derivative'', ''integral'', ''solve''] (lower ''Solve for x'')"
    by code_simp
  show c: "category (evaluate_row depth ''Solve for x'' ''42'') = ''math''"
    unfolding category_cases using a by (simp only: if_True)
  have "is_math_expression (strip (lower ''42''))"
    by code_simp
  then show "correct (evaluate_row depth ''Solve for x'' ''42'')"
    unfolding correct_math [OF c] by (rule disjI2)
qed

theorem math_verdict_witness:
  "category (evaluate_row 100 ''What is the integral of 1/t?'' ''log t'') = ''math''
   \<and> correct (evaluate_row 100 ''What is the integral of 1/t?'' ''log t'') =
        ((\<exists>k\<in>set [''x'', ''y'', ''='', ''dx'', ''dy'', ''6x'', ''2x''].
             sublist k (strip (lower ''log t'')))
         \<or> (\<exists>c\<in>set (strip (lower ''log t'')). c \<in> set ''0123456789+-*/=''))"
proof -
  have m: "category (evaluate_row 100 ''What is the integral of 1/t?'' ''log t'') = ''math''"
    by code_simp
  note v = math_verdict [of 100 "''What is the integral of 1/t?''" "''log t''",
      THEN conjunct1, rule_format, OF m]
  from m v show ?thesis by (rule conjI)
qed

text \<open>
  C4, as the specification states it, fails: with the prompt "a b c" and the output
  "banana" the category is general and the verdict is true, although the output's only
  token, "banana", is none of the prompt's tokens "a", "b", "c".
\<close>

theorem general_token_counterexample:
  "category (evaluate_row 100 ''a b c'' ''banana'') = ''general''
   \<and> correct (evaluate_row 100 ''a b c'' ''banana'')
   \<and> \<not> spec_general_correct ''a b c'' ''banana''"
  by code_simp

text \<open>
  C4, amended. For a general prompt the verdict is true exactly when the trimmed,
  lower-cased output is longer than 5 characters and at least one of the first three
  whitespace-delimited tokens of the lower-cased prompt occurs in it as a substring.
\<close>

theorem general_verdict:
  "category (evaluate_row depth prompt output) = ''general'' \<Longrightarrow>
   correct (evaluate_row depth prompt output) =
     (5 < length (strip (lower output))
      \<and> (\<exists>w\<in>set (take 3 (split (lower prompt))). sublist w (strip (lower output))))"
  unfolding any_in_sublist [symmetric] by (rule correct_general)

theorem general_verdict_witness:
  "category (evaluate_row 100 ''Hello there my friend'' ''oh hello'') = ''general''
   \<and> correct (evaluate_row 100 ''Hello there my friend'' ''oh hello'') =
       (5 < length (strip (lower ''oh hello''))
        \<and> (\<exists>w\<in>set (take 3 (split (lower ''Hello there my friend''))).
              sublist w (strip (lower ''oh hello''))))"
proof -
  have g: "category (evaluate_row 100 ''Hello there my friend'' ''oh hello'') = ''general''"
    by code_simp
  from g general_verdict [OF g] show ?thesis by (rule conjI)
qed

text \<open>
  C5. For a writing prompt the verdict is true exactly when the lower-cased output has
  more than 10 whitespace-delimited words and contains a period. Ten words are not
  enough; eleven words and a period are.
\<close>

theorem writing_verdict:
  "category (evaluate_row depth prompt output) = ''writing'' \<Longrightarrow>
   (correct (evaluate_row depth prompt output) =
      (10 < length (split (lower output)) \<and> CHR ''.'' \<in> set (lower output)))
   \<and> (length (split (lower output)) = 10 \<longrightarrow> \<not> correct (evaluate_row depth prompt output))
   \<and> (length (split (lower output)) = 11 \<and> CHR ''.'' \<in> set (lower output)
        \<longrightarrow> correct (evaluate_row depth prompt output))"
  by (simp add: correct_writing split_strip contains_single set_strip_nonspace period_not_space)

theorem writing_verdict_witness:
  "category (evaluate_row 100 ''Write a poem about the sea''
      ''One two three four five six seven eight nine ten.'') = ''writing''
   \<and> \<not> correct (evaluate_row 100 ''Write a poem about the sea''
      ''One two three four five six seven eight nine ten.'')
   \<and> correct (evaluate_row 100 ''Write a poem about the sea''
      ''One two three four five six seven eight nine ten eleven.'')"
proof -
  have w10: "category (evaluate_row 100 ''Write a poem about the sea''
      ''One two three four five six seven eight nine ten.'') = ''writing''"
    by code_simp
  have w11: "category (evaluate_row 100 ''Write a poem about the sea''
      ''One two three four five six seven eight nine ten eleven.'') = ''writing''"
    by code_simp
  have l10: "length (split (lower ''One two three four five six seven eight nine ten.'')) = 10"
    by code_simp
  have l11: "length (split (lower
      ''One two three four five six seven eight nine ten eleven.'')) = 11
    \<and> CHR ''.'' \<in> set (lower ''One two three four five six seven eight nine ten eleven.'')"
    by code_simp
  note n = writing_verdict [OF w10, THEN conjunct2, THEN conjunct1, rule_format, OF l10]
  note y = writing_verdict [OF w11, THEN conjunct2, THEN conjunct2, rule_format, OF l11]
  from w10 n y show ?thesis by (intro conjI)
qed

text \<open>
  C10. An empty output is judged incorrect whatever the prompt, hence in each of the
  five categories.
\<close>

theorem empty_output_incorrect: "\<not> correct (evaluate_row depth prompt '''')"
proof -
  have e: "strip (lower '''') = ''''"
    by (simp add: strip_def lower_def)
  have "\<not> any_in [''x'', ''y'', ''='', ''dx'', ''dy'', ''6x'', ''2x''] ''''"
    and "\<not> is_math_expression ''''"
    and "\<not> any_in [''def '', ''return'', ''for '', ''while ''] ''''"
    and "\<not> looks_like_json ''''"
    and "\<not> contains ''.'' ''''"
    by (simp_all add: any_in_def is_math_expression_def looks_like_json_def startswith_def
        strip_def)
  then show ?thesis
    unfolding evaluate_row_alt e by simp
qed

section \<open>The JSON verdict\<close>

declare parse_array.simps [simp del] parse_object.simps [simp del]

lemma parse_array_kind: "parse_array d s acc = Inr (v, r) \<Longrightarrow> \<exists>xs. v = JArr xs"
proof (induction "length s" arbitrary: s acc rule: less_induct)
  case less
  have IH: "parse_array d s' acc' = Inr (v, r) \<Longrightarrow> length s' < length s
            \<Longrightarrow> \<exists>xs. v = JArr xs" for s' acc'
    using less.hyps by blast
  from less.prems show ?case
    by (subst (asm) parse_array.simps)
       (auto split: sum.splits list.splits if_splits prod.splits dest: IH)
qed

lemma parse_object_kind: "parse_object d s acc = Inr (v, r) \<Longrightarrow> \<exists>kvs. v = JObj kvs"
proof (induction "length s" arbitrary: s acc rule: less_induct)
  case less
  have IH: "parse_object d s' acc' = Inr (v, r) \<Longrightarrow> length s' < length s
            \<Longrightarrow> \<exists>kvs. v = JObj kvs" for s' acc'
    using less.hyps by blast
  from less.prems show ?case
    by (subst (asm) parse_object.simps)
       (auto split: sum.splits list.splits if_splits prod.splits dest: IH)
qed

lemma scan_once_brace:
  "scan_once d (CHR ''{'' # cs) = Inr (v, r) \<Longrightarrow> \<exists>kvs. v = JObj kvs"
  by (auto split: if_splits dest: parse_object_kind)

lemma scan_once_bracket:
  "scan_once d (CHR ''['' # cs) = Inr (v, r) \<Longrightarrow> \<exists>xs. v = JArr xs"
  by (auto split: if_splits dest: parse_array_kind)

lemma match_number_first:
  "match_number (c # cs) = Inr x \<Longrightarrow> c \<in> set ''-0123456789''"
  by (cases cs)
     (auto simp: match_number_def int_part_def isdigit_set Let_def
           split: if_splits option.splits prod.splits)

lemma parse_constant_first:
  "parse_constant (c # cs) = Inr x \<Longrightarrow> c \<in> set ''ntfNI-0123456789''"
  by (auto simp: parse_constant_def split: if_splits dest: match_number_first)

lemma scan_once_first:
  "scan_once d (c # cs) = Inr x \<Longrightarrow> c \<in> set ''\"{[ntfNI-0123456789''"
  by (auto split: if_splits dest: parse_constant_first)

lemma value_start_not_space: "c \<in> set ''\"{[ntfNI-0123456789'' \<Longrightarrow> \<not> isspace c"
  by (auto simp: isspace_def)

lemma json_ws_isspace: "json_ws c \<Longrightarrow> isspace c"
  by (auto simp: json_ws_def isspace_def)

lemma dropWhile_isspace_skip_ws: "dropWhile isspace (skip_ws s) = dropWhile isspace s"
  unfolding skip_ws_def by (induction s) (auto dest: json_ws_isspace)

lemma strip_first:
  "\<not> isspace c \<Longrightarrow> prefix [c] (strip s) \<longleftrightarrow> prefix [c] (dropWhile isspace s)"
proof (cases "dropWhile isspace s")
  case Nil
  show ?thesis unfolding strip_def Nil by simp
next
  case (Cons x t)
  then have x: "\<not> isspace x"
    by (metis hd_dropWhile list.distinct(1) list.sel(1))
  have "dropWhile isspace (rev t @ [x]) = dropWhile isspace (rev t) @ [x]"
    using x by (simp add: dropWhile_append)
  then show ?thesis
    using Cons by (simp add: strip_def)
qed

lemma prefix_single: "prefix [c] xs \<longleftrightarrow> (\<exists>t. xs = c # t)"
  by (cases xs) auto

lemma looks_like_json_first:
  "looks_like_json s \<longleftrightarrow>
     (\<exists>t. dropWhile isspace s = CHR ''{'' # t \<or> dropWhile isspace s = CHR ''['' # t)"
proof -
  have a: "prefix ''{'' (strip s) = prefix ''{'' (dropWhile isspace s)"
    by (rule strip_first) (simp add: isspace_def)
  have b: "prefix ''['' (strip s) = prefix ''['' (dropWhile isspace s)"
    by (rule strip_first) (simp add: isspace_def)
  show ?thesis
    unfolding looks_like_json_def startswith_def a b by (auto simp: prefix_single)
qed

lemma loads_value_kind:
  assumes l: "looks_like_json s" and v: "json_loads depth s = Inr v"
  shows "(\<exists>kvs. v = JObj kvs) \<or> (\<exists>xs. v = JArr xs)"
proof -
  from v obtain r where so: "scan_once depth (skip_ws s) = Inr (v, r)"
    by (auto simp: json_loads_def split: sum.splits if_splits)
  from l obtain t where
    t: "dropWhile isspace s = CHR ''{'' # t \<or> dropWhile isspace s = CHR ''['' # t"
    unfolding looks_like_json_first by blast
  show ?thesis
  proof (cases "skip_ws s")
    case Nil
    with so show ?thesis by simp
  next
    case (Cons c cs)
    with so have "c \<in> set ''\"{[ntfNI-0123456789''"
      by (auto dest: scan_once_first simp del: scan_once.simps)
    then have "\<not> isspace c" by (rule value_start_not_space)
    then have "dropWhile isspace (skip_ws s) = c # cs"
      using Cons by simp
    then have "dropWhile isspace s = c # cs"
      by (simp add: dropWhile_isspace_skip_ws)
    with t have "c = CHR ''{'' \<or> c = CHR ''[''" by auto
    with so Cons show ?thesis
      by (auto dest: scan_once_brace scan_once_bracket simp del: scan_once.simps)
  qed
qed

lemma loads_not_null: "looks_like_json s \<Longrightarrow> json_loads depth s = Inr v \<Longrightarrow> v \<noteq> JNull"
  by (auto dest: loads_value_kind)

lemma safe_json_load_raised: "json_loads depth s = Inl e \<Longrightarrow> safe_json_load depth s = JNull"
  by (simp add: safe_json_load_def)

lemma safe_json_load_not_null:
  "looks_like_json s \<Longrightarrow> safe_json_load depth s \<noteq> JNull \<longleftrightarrow> (\<exists>v. json_loads depth s = Inr v)"
  by (cases "json_loads depth s") (auto simp: safe_json_load_def dest: loads_not_null)

text \<open>
  C3. For a json prompt the verdict is true exactly when the trimmed output starts with
  an opening brace or bracket and \<open>json.loads\<close> accepts the output. An output that does
  not start so is judged false, and so is one on which the decoder raises: the exception
  is a value of the model, turned into the verdict false.
\<close>

theorem json_verdict:
  "category (evaluate_row depth prompt output) = ''json'' \<Longrightarrow>
   (correct (evaluate_row depth prompt output) =
      ((prefix ''{'' (strip output) \<or> prefix ''['' (strip output))
       \<and> (\<exists>v. json_loads depth output = Inr v)))
   \<and> (\<not> (prefix ''{'' (strip output) \<or> prefix ''['' (strip output))
        \<longrightarrow> \<not> correct (evaluate_row depth prompt output))
   \<and> (\<forall>e. json_loads depth output = Inl e \<longrightarrow> \<not> correct (evaluate_row depth prompt output))"
proof -
  assume j: "category (evaluate_row depth prompt output) = ''json''"
  have l: "looks_like_json output =
      (prefix ''{'' (strip output) \<or> prefix ''['' (strip output))"
    by (simp add: looks_like_json_def startswith_def)
  have c: "correct (evaluate_row depth prompt output) =
      (looks_like_json output \<and> (\<exists>v. json_loads depth output = Inr v))"
    unfolding correct_json [OF j] using safe_json_load_not_null [of "output"] by blast
  show ?thesis
    unfolding c l by auto
qed

theorem json_verdict_witness:
  "category (evaluate_row 100 ''Return a json object'' ''{\"a\": 1}'') = ''json''
   \<and> correct (evaluate_row 100 ''Return a json object'' ''{\"a\": 1}'')
   \<and> json_loads 100 ''{not valid}'' = Inl JSONDecodeError
   \<and> \<not> correct (evaluate_row 100 ''Return a json object'' ''{not valid}'')"
proof -
  have j1: "category (evaluate_row 100 ''Return a json object'' ''{\"a\": 1}'') = ''json''"
    by code_simp
  have j2: "category (evaluate_row 100 ''Return a json object'' ''{not valid}'') = ''json''"
    by code_simp
  have p: "prefix ''{'' (strip ''{\"a\": 1}'')"
    by code_simp
  have v: "json_loads 100 ''{\"a\": 1}'' = Inr (JObj [([97], JInt 1)])"
    by code_simp
  have e: "json_loads 100 ''{not valid}'' = Inl JSONDecodeError"
    by code_simp
  from json_verdict [OF j1, THEN conjunct1] p v
  have y: "correct (evaluate_row 100 ''Return a json object'' ''{\"a\": 1}'')"
    by blast
  from json_verdict [OF j2, THEN conjunct2, THEN conjunct2] e
  have n: "\<not> correct (evaluate_row 100 ''Return a json object'' ''{not valid}'')"
    by blast
  from j1 y e n show ?thesis by (intro conjI)
qed

text \<open>
  The nesting depth left when the decoder is entered decides between a value and
  \<open>RecursionError\<close>, and with it the verdict: two nested arrays need two levels.
\<close>

lemma nesting_depth_examples:
  "json_loads 2 ''[[]]'' = Inr (JArr [JArr []])
   \<and> correct (evaluate_row 2 ''Return a json object'' ''[[]]'')
   \<and> json_loads 1 ''[[]]'' = Inl RecursionError
   \<and> \<not> correct (evaluate_row 1 ''Return a json object'' ''[[]]'')"
  by code_simp

section \<open>The decoder consumes its input\<close>

lemma scanstring_shorter: "scanstring s acc = Inr (v, r) \<Longrightarrow> length r < length s"
proof (induction "length s" arbitrary: s acc rule: less_induct)
  case less
  have IH: "scanstring s' acc' = Inr (v, r) \<Longrightarrow> length s' < length s
            \<Longrightarrow> length r < length s'" for s' acc'
    using less.hyps by blast
  show ?case
  proof (cases s)
    case Nil
    with less.prems show ?thesis by simp
  next
    case (Cons c cs)
    from less.prems show ?thesis
      unfolding Cons
      by (subst (asm) scanstring.simps(2))
         (auto simp del: scanstring.simps simp: Cons
               split: if_splits list.splits option.splits dest!: IH)
  qed
qed

lemma length_skip_ws: "length (skip_ws s) \<le> length s"
  by (simp add: skip_ws_def length_dropWhile_le)

lemma skip_ws_Cons_shorter:
  "skip_ws s = x # r \<Longrightarrow> length r < length s \<and> length (skip_ws r) < length s"
  using length_skip_ws [of s] length_skip_ws [of r] by simp

lemma int_part_shorter: "int_part s = Some (ip, r) \<Longrightarrow> length r < length s"
  by (cases s) (auto simp: int_part_def le_imp_less_Suc length_dropWhile_le split: if_splits)

lemma frac_part_shorter: "frac_part s = (fp, r) \<Longrightarrow> length r \<le> length s"
  by (auto simp: frac_part_def le_SucI length_dropWhile_le split: list.splits if_splits)

lemma exp_part_shorter: "exp_part s = (ep, r) \<Longrightarrow> length r \<le> length s"
  by (auto simp: exp_part_def Let_def le_SucI length_dropWhile_le
           split: list.splits if_splits prod.splits)

lemma match_number_shorter: "match_number s = Inr (v, r) \<Longrightarrow> length r < length s"
proof -
  assume m: "match_number s = Inr (v, r)"
  obtain sg r0 where s: "(case s of [] \<Rightarrow> ([], s)
        | c # cs \<Rightarrow> if c = CHR ''-'' then ([c], cs) else ([], s)) = (sg, r0)"
    by (cases "case s of [] \<Rightarrow> ([], s)
        | c # cs \<Rightarrow> if c = CHR ''-'' then ([c], cs) else ([], s)") auto
  then have l0: "length r0 \<le> length s"
    by (auto split: list.splits if_splits)
  from m s obtain ip r1 where i: "int_part r0 = Some (ip, r1)"
    by (auto simp: match_number_def split: option.splits)
  obtain fp r2 where f: "frac_part r1 = (fp, r2)"
    by (cases "frac_part r1") auto
  obtain ep r3 where e: "exp_part r2 = (ep, r3)"
    by (cases "exp_part r2") auto
  from m s i f e have "r = r3"
    by (auto simp: match_number_def split: if_splits)
  with l0 int_part_shorter [OF i] frac_part_shorter [OF f] exp_part_shorter [OF e]
  show ?thesis by simp
qed

lemma parse_constant_shorter: "parse_constant s = Inr (v, r) \<Longrightarrow> length r < length s"
proof -
  assume p: "parse_constant s = Inr (v, r)"
  have "parse_constant [] = Inl JSONDecodeError"
    by (simp add: parse_constant_def match_number_def int_part_def)
  with p have ne: "s \<noteq> []" by auto
  have d: "length (drop (Suc n) s) < length s" for n
    using ne by simp
  from p have "(\<exists>n. r = drop (Suc n) s) \<or> match_number s = Inr (v, r)"
    unfolding parse_constant_def
    by (simp only: split: if_splits) (auto simp: numeral_eq_Suc)
  then show ?thesis
    using d match_number_shorter by blast
qed

lemma decoder_shorter:
  "(scan_once d s = Inr (v, r) \<longrightarrow> length r < length s)
   \<and> (parse_array d s acc = Inr (v, r) \<longrightarrow> length r < length s)
   \<and> (parse_object d s kvs = Inr (v, r) \<longrightarrow> length r < length s)"
proof (induction "length s" arbitrary: s d v r acc kvs rule: less_induct)
  case less
  have IHa: "parse_array d' s' acc' = Inr (v', r') \<Longrightarrow> length s' < length s
             \<Longrightarrow> length r' < length s'" for d' s' acc' v' r'
    using less.hyps by blast
  have IHo: "parse_object d' s' kvs' = Inr (v', r') \<Longrightarrow> length s' < length s
             \<Longrightarrow> length r' < length s'" for d' s' kvs' v' r'
    using less.hyps by blast
  have IHs: "scan_once d' s' = Inr (v', r') \<Longrightarrow> length s' < length s
             \<Longrightarrow> length r' < length s'" for d' s' v' r'
    using less.hyps by blast
  have so: "length r' < length s" if so: "scan_once d' s = Inr (v', r')" for d' v' r'
  proof (cases s)
    case Nil
    with so show ?thesis by simp
  next
    case (Cons c cs)
    note sk = length_skip_ws [of cs]
    from so consider
        (str) k where "scanstring cs [] = Inr (k, r')"
      | (emp) "r' = tl (skip_ws cs)" "skip_ws cs \<noteq> []"
      | (obj) "parse_object (d' - 1) (skip_ws cs) [] = Inr (v', r')"
      | (arr) "parse_array (d' - 1) (skip_ws cs) [] = Inr (v', r')"
      | (con) "parse_constant (c # cs) = Inr (v', r')"
      unfolding Cons
      by (auto split: if_splits sum.splits prod.splits simp: startswith_def prefix_single)
    then show ?thesis
    proof cases
      case str
      then show ?thesis using scanstring_shorter Cons by fastforce
    next
      case emp
      then show ?thesis using sk Cons by (cases "skip_ws cs") auto
    next
      case obj
      then show ?thesis using IHo [OF obj] sk Cons by simp
    next
      case arr
      then show ?thesis using IHa [OF arr] sk Cons by simp
    next
      case con
      then show ?thesis using parse_constant_shorter Cons by fastforce
    qed
  qed
  have sa: "length r' < length s" if pa: "parse_array d' s acc' = Inr (v', r')" for d' acc' v' r'
  proof -
    note e = pa [unfolded parse_array.simps [of d' s acc']]
    from e obtain v1 r1 x r2 where
      1: "scan_once d' s = Inr (v1, r1)" and 2: "skip_ws r1 = x # r2"
      and 3: "r' = r2 \<or> (length (skip_ws r2) < length s
                \<and> parse_array d' (skip_ws r2) (acc' @ [v1]) = Inr (v', r'))"
      by (auto split: sum.splits prod.splits list.splits if_splits)
    from so [OF 1] skip_ws_Cons_shorter [OF 2] 3 show ?thesis
      by (auto dest: IHa)
  qed
  have sb: "length r' < length s" if po: "parse_object d' s kvs' = Inr (v', r')" for d' kvs' v' r'
  proof -
    note e = po [unfolded parse_object.simps [of d' s kvs']]
    from e show ?thesis
      by (auto split: sum.splits prod.splits list.splits if_splits
               dest!: IHs skip_ws_Cons_shorter dest: IHo scanstring_shorter)
  qed
  from so sa sb show ?case by blast
qed

lemma scan_once_shorter: "scan_once d s = Inr (v, r) \<Longrightarrow> length r < length s"
  using decoder_shorter [of d s v r] by blast

text \<open>
  The length tests inside \<^const>\<open>parse_array\<close> and \<^const>\<open>parse_object\<close> only make the
  recursion well-founded for the definition. The decoder always consumes input, so they
  never fail, and the two loops satisfy the equations without them, which are the loops
  of the library.
\<close>

lemma parse_array_loop:
  "parse_array d s acc =
     (case scan_once d s of
        Inl e \<Rightarrow> Inl e
      | Inr (v, r) \<Rightarrow>
          (case skip_ws r of
             [] \<Rightarrow> Inl JSONDecodeError
           | x # r' \<Rightarrow>
               if x = CHR '']'' then Inr (JArr (acc @ [v]), r')
               else if x = CHR '','' then parse_array d (skip_ws r') (acc @ [v])
               else Inl JSONDecodeError))"
proof (cases "scan_once d s")
  case (Inl e)
  then show ?thesis by (subst parse_array.simps) simp
next
  case (Inr p)
  obtain v r where p: "p = (v, r)" by (cases p)
  show ?thesis
  proof (cases "skip_ws r")
    case Nil
    then show ?thesis by (subst parse_array.simps) (simp add: Inr p)
  next
    case (Cons x r')
    have "length (skip_ws r') < length s"
      using skip_ws_Cons_shorter [OF Cons] scan_once_shorter [of d s v r] Inr p by simp
    then show ?thesis by (subst parse_array.simps) (simp add: Inr p Cons)
  qed
qed

lemma parse_object_loop:
  "parse_object d s acc =
     (case s of
        [] \<Rightarrow> Inl JSONDecodeError
      | q # ks \<Rightarrow>
          if q \<noteq> CHR ''\"'' then Inl JSONDecodeError
          else
            (case scanstring ks [] of
               Inl e \<Rightarrow> Inl e
             | Inr (k, r0) \<Rightarrow>
                 (case skip_ws r0 of
                    [] \<Rightarrow> Inl JSONDecodeError
                  | col # r1 \<Rightarrow>
                      if col \<noteq> CHR '':'' then Inl JSONDecodeError
                      else
                        (case scan_once d (skip_ws r1) of
                           Inl e \<Rightarrow> Inl e
                         | Inr (v, r) \<Rightarrow>
                             (case skip_ws r of
                                [] \<Rightarrow> Inl JSONDecodeError
                              | x # r' \<Rightarrow>
                                  if x = CHR ''}'' then Inr (JObj (acc @ [(k, v)]), r')
                                  else if x = CHR '',''
                                  then parse_object d (skip_ws r') (acc @ [(k, v)])
                                  else Inl JSONDecodeError)))))"
proof (cases s)
  case Nil
  then show ?thesis by (subst parse_object.simps) simp
next
  case s: (Cons q ks)
  show ?thesis
  proof (cases "scanstring ks []")
    case Inl
    then show ?thesis by (subst parse_object.simps) (simp add: s)
  next
    case (Inr p)
    obtain k r0 where p: "p = (k, r0)" by (cases p)
    note l0 = scanstring_shorter [of ks "[]" k r0]
    show ?thesis
    proof (cases "skip_ws r0")
      case Nil
      then show ?thesis by (subst parse_object.simps) (simp add: s Inr p)
    next
      case c: (Cons col r1)
      have g1: "\<not> length s \<le> length (skip_ws r1)"
        using l0 skip_ws_Cons_shorter [OF c] Inr p s by simp
      show ?thesis
      proof (cases "scan_once d (skip_ws r1)")
        case Inl
        then show ?thesis using g1 by (subst parse_object.simps) (simp add: s Inr p c)
      next
        case v: (Inr pv)
        obtain v r where pv: "pv = (v, r)" by (cases pv)
        show ?thesis
        proof (cases "skip_ws r")
          case Nil
          then show ?thesis using g1 by (subst parse_object.simps) (simp add: s Inr p c v pv)
        next
          case x: (Cons x r')
          have g2: "length (skip_ws r') < length s"
            using g1 scan_once_shorter [of d "skip_ws r1" v r] skip_ws_Cons_shorter [OF x] v pv
            by simp
          show ?thesis
            using g1 g2 by (subst parse_object.simps) (simp add: s Inr p c v pv x)
        qed
      qed
    qed
  qed
qed

section \<open>No exception leaves \<open>evaluate_row\<close>\<close>

lemma then_do_returns:
  assumes "returns m" and "\<And>x. \<exists>r. f x = Inr r \<and> P r"
  shows "\<exists>r. then_do m f = Inr r \<and> P r"
  using assms by (cases m) (simp_all add: then_do_def returns_def)

lemma returns_iff: "returns m \<longleftrightarrow> (\<exists>r. m = Inr r \<and> True)"
  by (cases m) (simp_all add: returns_def)

lemma returns_then_do: "returns m \<Longrightarrow> (\<And>x. returns (f x)) \<Longrightarrow> returns (then_do m f)"
  by (cases m) (simp_all add: then_do_def returns_def)

lemma returns_Inr: "returns (Inr x)"
  by (simp add: returns_def)

lemma returns_if: "returns a \<Longrightarrow> returns b \<Longrightarrow> returns (if c then a else b)"
  by simp

lemma returns_any_of: "(\<And>x. returns (f x)) \<Longrightarrow> returns (any_of f xs)"
  by (induction xs) (simp_all add: returns_Inr returns_then_do)

lemma returns_safe_json_load_in: "returns (safe_json_load_in L s)"
  by (cases "loads L s") (simp_all add: safe_json_load_in_def returns_def)

lemma returns_str:
  assumes "str_methods_return L"
  shows "returns (str_lower L s)" and "returns (str_strip L s)" and "returns (str_split L s)"
    and "returns (str_in L sub s)" and "returns (str_startswith L s pre)"
    and "returns (str_len L s)" and "returns (re_search L s)"
  using assms by (simp_all add: str_methods_return_def)

lemma returns_looks_like_json_in:
  "str_methods_return L \<Longrightarrow> returns (looks_like_json_in L s)"
  unfolding looks_like_json_in_def
  by (intro returns_then_do returns_if returns_Inr returns_str)

lemma result_in_returns:
  "str_methods_return L \<Longrightarrow>
   \<exists>r. result_in L cat c out_lower = Inr r \<and> category r = cat"
  unfolding result_in_def
  by (rule then_do_returns) (simp_all add: returns_str)

lemma returns_correctness:
  assumes L: "str_methods_return L"
  shows "returns (then_do (any_of (\<lambda>sym. str_in L (literal L sym) out_lower) ks)
                    (\<lambda>b. if b then Inr True else is_math_expression_in L out_lower))"
    and "returns (any_of (\<lambda>k. str_in L (literal L k) out_lower) ks)"
    and "returns (then_do (looks_like_json_in L output)
                    (\<lambda>l. if l then then_do (safe_json_load_in L output) (\<lambda>v. Inr (v \<noteq> JNull))
                         else Inr False))"
    and "returns (then_do (str_split L out_lower)
                    (\<lambda>ws. if 10 < length ws then str_in L (literal L ''.'') out_lower
                          else Inr False))"
    and "returns (then_do (str_len L out_lower)
                    (\<lambda>n. if 5 < n
                         then then_do (str_split L p_lower)
                                (\<lambda>ws. any_of (\<lambda>w. str_in L w out_lower) (take 3 ws))
                         else Inr False))"
  unfolding is_math_expression_in_def
  by (intro returns_then_do returns_if returns_Inr returns_any_of returns_str [OF L]
        returns_safe_json_load_in returns_looks_like_json_in [OF L])+

lemma evaluate_row_in_returns:
  assumes L: "str_methods_return L"
  shows "\<exists>r. evaluate_row_in L prompt output = Inr r
             \<and> category r \<in> {''math'', ''code'', ''json'', ''writing'', ''general''}"
proof -
  have fin: "\<exists>r. then_do m (\<lambda>correctness. result_in L cat correctness out_lower) = Inr r
                 \<and> category r \<in> {''math'', ''code'', ''json'', ''writing'', ''general''}"
    if "returns m"
      and "cat \<in> {''math'', ''code'', ''json'', ''writing'', ''general''}"
    for m cat out_lower
  proof (rule then_do_returns [OF that(1)])
    fix c
    from result_in_returns [OF L, of cat c out_lower] that(2)
    show "\<exists>r. result_in L cat c out_lower = Inr r
              \<and> category r \<in> {''math'', ''code'', ''json'', ''writing'', ''general''}"
      by auto
  qed
  note kw = returns_any_of [OF returns_str(4) [OF L]]
  show ?thesis
    unfolding evaluate_row_in_def
    apply (rule then_do_returns [OF returns_str(1) [OF L]])
    apply (rule then_do_returns [OF returns_then_do [OF returns_str(1) [OF L] returns_str(2) [OF L]]])
    apply (rule then_do_returns [OF kw])
    apply (simp only: split: if_split)
    apply (intro conjI impI)
     apply (rule fin [OF returns_correctness(1) [OF L]], simp)
    apply (rule then_do_returns [OF kw])
    apply (simp only: split: if_split)
    apply (intro conjI impI)
     apply (rule fin [OF returns_correctness(2) [OF L]], simp)
    apply (rule then_do_returns [OF kw])
    apply (simp only: split: if_split)
    apply (intro conjI impI)
     apply (rule fin [OF returns_correctness(3) [OF L]], simp)
    apply (rule then_do_returns [OF kw])
    apply (simp only: split: if_split)
    apply (intro conjI impI)
     apply (rule fin [OF returns_correctness(4) [OF L]], simp)
    apply (rule fin [OF returns_correctness(5) [OF L]], simp)
    done
qed

lemma any_of_Inr: "any_of (\<lambda>x. Inr (g x)) xs = Inr (list_ex g xs)"
  by (induction xs) (simp_all add: then_do_def)

lemma then_do_Inr: "then_do (Inr x) f = f x"
  by (simp add: then_do_def)

lemma latin1_returns: "str_methods_return (latin1 depth)"
  by (simp add: str_methods_return_def latin1_def returns_def)

lemma safe_json_load_in_latin1:
  "safe_json_load_in (latin1 depth) s = Inr (safe_json_load depth s)"
  by (cases "json_loads depth s") (simp_all add: safe_json_load_in_def safe_json_load_def latin1_def)

lemma looks_like_json_in_latin1:
  "looks_like_json_in (latin1 depth) s = Inr (looks_like_json s)"
  by (simp add: looks_like_json_in_def looks_like_json_def latin1_def then_do_Inr)

lemma evaluate_row_in_latin1:
  "evaluate_row_in (latin1 depth) prompt output = Inr (evaluate_row depth prompt output)"
proof -
  have sel: "literal (latin1 depth) = (\<lambda>s. s)"
    "str_lower (latin1 depth) = (\<lambda>s. Inr (lower s))"
    "str_strip (latin1 depth) = (\<lambda>s. Inr (strip s))"
    "str_split (latin1 depth) = (\<lambda>s. Inr (split s))"
    "str_in (latin1 depth) = (\<lambda>sub s. Inr (contains sub s))"
    "str_len (latin1 depth) = (\<lambda>s. Inr (length s))"
    "re_search (latin1 depth) = (\<lambda>s. Inr (is_math_expression s))"
    by (simp_all add: latin1_def)
  show ?thesis
    unfolding evaluate_row_in_def result_in_def is_math_expression_in_def
      safe_json_load_in_latin1 looks_like_json_in_latin1 sel any_of_Inr then_do_Inr
    by (simp add: evaluate_row_def Let_def any_in_def then_do_Inr)
qed

text \<open>
  C9. Classification and evaluation raise nothing and return a result. In the embedding
  where every call into the library may raise, over any type of strings: if the string
  operations of the library return, then for every prompt and output \<open>evaluate_row\<close>
  returns a result, and its category is one of the five labels; the verdict is a boolean
  by the type of the result. Nothing is assumed of \<open>json.loads\<close>, which may raise on any
  text: its exceptions end in \<open>safe_json_load\<close>. For the library of this development,
  whose string operations do return and whose decoder does raise, the result is the one
  the verdict theorems speak of, whatever nesting depth is left; empty strings give the
  category general and the verdict false.
\<close>

theorem evaluate_row_total:
  "(str_methods_return L \<longrightarrow>
      (\<exists>r. evaluate_row_in L prompt output = Inr r
           \<and> category r \<in> {''math'', ''code'', ''json'', ''writing'', ''general''}))
   \<and> str_methods_return (latin1 depth)
   \<and> evaluate_row_in (latin1 depth) p q = Inr (evaluate_row depth p q)
   \<and> evaluate_row_in (latin1 depth) '''' '''' =
       Inr \<lparr>category = ''general'', correct = False, output_len = 0\<rparr>"
proof (intro conjI impI)
  assume "str_methods_return L"
  then show "\<exists>r. evaluate_row_in L prompt output = Inr r
           \<and> category r \<in> {''math'', ''code'', ''json'', ''writing'', ''general''}"
    by (rule evaluate_row_in_returns)
next
  show "str_methods_return (latin1 depth)"
    by (rule latin1_returns)
next
  show "evaluate_row_in (latin1 depth) p q = Inr (evaluate_row depth p q)"
    by (rule evaluate_row_in_latin1)
next
  have "evaluate_row depth '''' '''' =
      \<lparr>category = ''general'', correct = False, output_len = 0\<rparr>"
    by (simp add: evaluate_row_def Let_def lower_def strip_def)
  then show "evaluate_row_in (latin1 depth) '''' '''' =
       Inr \<lparr>category = ''general'', correct = False, output_len = 0\<rparr>"
    unfolding evaluate_row_in_latin1 by simp
qed

theorem evaluate_row_total_witness:
  "str_methods_return (latin1 100)
   \<and> loads (latin1 100) ''{not valid}'' = Inl JSONDecodeError
   \<and> (\<exists>r. evaluate_row_in (latin1 100) (''R'' @ [CHR 0xC9] @ ''SOUDRE un JSON'') ''{not valid}''
              = Inr r
           \<and> category r \<in> {''math'', ''code'', ''json'', ''writing'', ''general''})
   \<and> evaluate_row_in (latin1 100) (''R'' @ [CHR 0xC9] @ ''SOUDRE un JSON'') ''{not valid}'' =
       Inr \<lparr>category = ''json'', correct = False, output_len = 2\<rparr>"
proof -
  note t = evaluate_row_total [of "latin1 100" "''R'' @ [CHR 0xC9] @ ''SOUDRE un JSON''"
      "''{not valid}''" 100 "''R'' @ [CHR 0xC9] @ ''SOUDRE un JSON''" "''{not valid}''"]
  have h: "str_methods_return (latin1 100)"
    by (simp add: str_methods_return_def latin1_def returns_def)
  have e: "loads (latin1 100) ''{not valid}'' = Inl JSONDecodeError"
    by code_simp
  have v: "evaluate_row 100 (''R'' @ [CHR 0xC9] @ ''SOUDRE un JSON'') ''{not valid}'' =
      \<lparr>category = ''json'', correct = False, output_len = 2\<rparr>"
    by code_simp
  note r = t [THEN conjunct1, rule_format, OF h]
  note a = t [THEN conjunct2, THEN conjunct2, THEN conjunct1, unfolded v]
  from h e r a show ?thesis by (intro conjI)
qed

section \<open>The aggregator\<close>

lemma keys_setdefault:
  "map fst (setdefault d k v) = (if k \<in> fst ` set d then map fst d else map fst d @ [k])"
  by (induction d) (fastforce simp: image_iff)+

lemma keys_update_at: "map fst (update_at k f d) = map fst d"
  by (induction d) auto

lemma map_of_setdefault:
  "map_of (setdefault d k v) = (case map_of d k of None \<Rightarrow> (map_of d)(k \<mapsto> v) | Some w \<Rightarrow> map_of d)"
  by (induction d) (auto split: option.splits)

lemma map_of_update_at:
  "map_of (update_at k f d) = (case map_of d k of None \<Rightarrow> map_of d | Some w \<Rightarrow> (map_of d)(k \<mapsto> f w))"
  by (induction d) (auto split: option.splits)

lemma sum_setdefault:
  "g v = 0 \<Longrightarrow> sum_list (map (g \<circ> snd) (setdefault d k v)) = sum_list (map (g \<circ> snd) d)"
  for g :: "cat_stats \<Rightarrow> int"
  by (induction d) auto

lemma sum_update_at_bump:
  "k \<in> fst ` set d \<Longrightarrow> (\<And>w. g (f w) = g w + 1) \<Longrightarrow>
   sum_list (map (g \<circ> snd) (update_at k f d)) = sum_list (map (g \<circ> snd) d) + 1"
  for g :: "cat_stats \<Rightarrow> int"
  by (induction d) (fastforce simp: image_iff)+

lemma sum_update_at_same:
  "(\<And>w. g (f w) = g w) \<Longrightarrow>
   sum_list (map (g \<circ> snd) (update_at k f d)) = sum_list (map (g \<circ> snd) d)"
  for g :: "cat_stats \<Rightarrow> int"
  by (induction d) auto

lemma key_in_setdefault: "k \<in> fst ` set (setdefault d k v)"
proof -
  have "k \<in> set (map fst (setdefault d k v))"
    unfolding keys_setdefault by simp
  then show ?thesis by simp
qed

lemma accumulate_snoc: "accumulate (rs @ [r]) = fold_result (accumulate rs) r"
  by (simp add: accumulate_def)

lemma fold_result_count:
  "correct_count (fold_result st r) = correct_count st + (if correct r then 1 else 0)"
  by (simp add: fold_result_def Let_def)

lemma fold_result_keys:
  "map fst (category_stats (fold_result st r)) =
     (if category r \<in> fst ` set (category_stats st) then map fst (category_stats st)
      else map fst (category_stats st) @ [category r])"
  by (simp add: fold_result_def Let_def keys_update_at keys_setdefault)

lemma fold_result_total:
  "sum_list (map (cat_total \<circ> snd) (category_stats (fold_result st r))) =
   sum_list (map (cat_total \<circ> snd) (category_stats st)) + 1"
proof -
  let ?d0 = "setdefault (category_stats st) (category r) \<lparr>cat_total = 0, cat_correct = 0\<rparr>"
  let ?d1 = "update_at (category r) (\<lambda>v. v\<lparr>cat_total := cat_total v + 1\<rparr>) ?d0"
  have 0: "sum_list (map (cat_total \<circ> snd) ?d0)
           = sum_list (map (cat_total \<circ> snd) (category_stats st))"
    by (rule sum_setdefault) simp
  have 1: "sum_list (map (cat_total \<circ> snd) ?d1) = sum_list (map (cat_total \<circ> snd) ?d0) + 1"
    by (rule sum_update_at_bump) (simp_all add: key_in_setdefault)
  have 2: "sum_list (map (cat_total \<circ> snd)
              (update_at (category r) (\<lambda>v. v\<lparr>cat_correct := cat_correct v + 1\<rparr>) ?d1))
           = sum_list (map (cat_total \<circ> snd) ?d1)"
    by (rule sum_update_at_same) simp
  show ?thesis
    unfolding fold_result_def Let_def using 0 1 2 by simp
qed

lemma fold_result_correct:
  "sum_list (map (cat_correct \<circ> snd) (category_stats (fold_result st r))) =
   sum_list (map (cat_correct \<circ> snd) (category_stats st)) + (if correct r then 1 else 0)"
proof -
  let ?d0 = "setdefault (category_stats st) (category r) \<lparr>cat_total = 0, cat_correct = 0\<rparr>"
  let ?d1 = "update_at (category r) (\<lambda>v. v\<lparr>cat_total := cat_total v + 1\<rparr>) ?d0"
  have 0: "sum_list (map (cat_correct \<circ> snd) ?d0)
           = sum_list (map (cat_correct \<circ> snd) (category_stats st))"
    by (rule sum_setdefault) simp
  have 1: "sum_list (map (cat_correct \<circ> snd) ?d1) = sum_list (map (cat_correct \<circ> snd) ?d0)"
    by (rule sum_update_at_same) simp
  have k: "category r \<in> fst ` set ?d1"
    using key_in_setdefault [of "category r" "category_stats st"]
    by (simp only: keys_update_at set_map [symmetric])
  have 2: "sum_list (map (cat_correct \<circ> snd)
              (update_at (category r) (\<lambda>v. v\<lparr>cat_correct := cat_correct v + 1\<rparr>) ?d1))
           = sum_list (map (cat_correct \<circ> snd) ?d1) + 1"
    by (rule sum_update_at_bump) (simp_all add: k)
  show ?thesis
    unfolding fold_result_def Let_def using 0 1 2 by simp
qed

lemma fold_result_map_of:
  "map_of (category_stats (fold_result st r)) =
     (map_of (category_stats st))
       (category r \<mapsto>
          (let w = (case map_of (category_stats st) (category r) of
                      None \<Rightarrow> \<lparr>cat_total = 0, cat_correct = 0\<rparr> | Some w \<Rightarrow> w)
           in \<lparr>cat_total = cat_total w + 1,
               cat_correct = cat_correct w + (if correct r then 1 else 0)\<rparr>))"
  by (auto simp: fold_result_def Let_def map_of_update_at map_of_setdefault
           split: option.splits)

lemma accumulate_count: "correct_count (accumulate rs) = int (length (filter correct rs))"
  by (induction rs rule: rev_induct)
     (simp_all add: accumulate_snoc fold_result_count, simp add: accumulate_def)

lemma accumulate_keys:
  "distinct (map fst (category_stats (accumulate rs)))
   \<and> set (map fst (category_stats (accumulate rs))) = category ` set rs"
proof (induction rs rule: rev_induct)
  case Nil
  show ?case by (simp add: accumulate_def)
next
  case (snoc r rs)
  then show ?case
    unfolding accumulate_snoc fold_result_keys by auto
qed

lemma accumulate_total:
  "sum_list (map (cat_total \<circ> snd) (category_stats (accumulate rs))) = int (length rs)"
proof (induction rs rule: rev_induct)
  case Nil
  show ?case by (simp add: accumulate_def)
next
  case (snoc r rs)
  show ?case
    unfolding accumulate_snoc fold_result_total snoc.IH by simp
qed

lemma accumulate_correct:
  "sum_list (map (cat_correct \<circ> snd) (category_stats (accumulate rs)))
   = correct_count (accumulate rs)"
proof (induction rs rule: rev_induct)
  case Nil
  show ?case by (simp add: accumulate_def)
next
  case (snoc r rs)
  show ?case
    unfolding accumulate_snoc fold_result_correct fold_result_count snoc.IH by simp
qed

lemma accumulate_map_of:
  "map_of (category_stats (accumulate rs)) c =
     (if c \<in> category ` set rs
      then Some \<lparr>cat_total = int (length (filter (\<lambda>r. category r = c) rs)),
                 cat_correct = int (length (filter (\<lambda>r. category r = c \<and> correct r) rs))\<rparr>
      else None)"
proof (induction rs arbitrary: c rule: rev_induct)
  case Nil
  show ?case by (simp add: accumulate_def)
next
  case (snoc r rs)
  show ?case
    unfolding accumulate_snoc fold_result_map_of
    by (auto simp: snoc Let_def filter_empty_conv) (metis imageI)+
qed

lemma accumulate_entry:
  assumes "(c, w) \<in> set (category_stats (accumulate rs))"
  shows "0 < cat_total w \<and> 0 \<le> cat_correct w \<and> cat_correct w \<le> cat_total w"
proof -
  have "map_of (category_stats (accumulate rs)) c = Some w"
    using assms accumulate_keys [of rs] by simp
  then have c: "c \<in> category ` set rs"
    and w: "w = \<lparr>cat_total = int (length (filter (\<lambda>r. category r = c) rs)),
                 cat_correct = int (length (filter (\<lambda>r. category r = c \<and> correct r) rs))\<rparr>"
    unfolding accumulate_map_of by (auto split: if_splits)
  from c have "filter (\<lambda>r. category r = c) rs \<noteq> []"
    by (auto simp: filter_empty_conv)
  moreover have "length (filter (\<lambda>r. category r = c \<and> correct r) rs)
                 \<le> length (filter (\<lambda>r. category r = c) rs)"
    using length_filter_le [of correct "filter (\<lambda>r. category r = c) rs"]
    by (simp add: conj_commute)
  ultimately show ?thesis unfolding w by simp
qed

text \<open>
  C6. After folding a non-empty sequence of evaluation results into the aggregator, the
  per-category totals add up to the length of the sequence (which is what \<open>main\<close> takes
  as \<open>total\<close>), the per-category correct counts add up to the global correct counter, and
  the categories of the dict are, each once, the categories observed.
\<close>

theorem aggregation_invariant:
  "results \<noteq> [] \<Longrightarrow>
   sum_list (map (cat_total \<circ> snd) (category_stats (accumulate results)))
     = int (length results)
   \<and> sum_list (map (cat_correct \<circ> snd) (category_stats (accumulate results)))
     = correct_count (accumulate results)
   \<and> distinct (map fst (category_stats (accumulate results)))
   \<and> set (map fst (category_stats (accumulate results))) = category ` set results"
  using accumulate_keys [of results]
  by (simp only: accumulate_total accumulate_correct simp_thms)

theorem aggregation_invariant_witness:
  "[\<lparr>category = ''math'', correct = True, output_len = 1\<rparr>,
    \<lparr>category = ''json'', correct = False, output_len = 2\<rparr>,
    \<lparr>category = ''math'', correct = False, output_len = 3\<rparr>] \<noteq> []
   \<and> sum_list (map (cat_total \<circ> snd) (category_stats (accumulate
        [\<lparr>category = ''math'', correct = True, output_len = 1\<rparr>,
         \<lparr>category = ''json'', correct = False, output_len = 2\<rparr>,
         \<lparr>category = ''math'', correct = False, output_len = 3\<rparr>]))) = 3
   \<and> category_stats (accumulate
        [\<lparr>category = ''math'', correct = True, output_len = 1\<rparr>,
         \<lparr>category = ''json'', correct = False, output_len = 2\<rparr>,
         \<lparr>category = ''math'', correct = False, output_len = 3\<rparr>])
      = [(''math'', \<lparr>cat_total = 2, cat_correct = 1\<rparr>),
         (''json'', \<lparr>cat_total = 1, cat_correct = 0\<rparr>)]"
proof -
  have n: "[\<lparr>category = ''math'', correct = True, output_len = 1\<rparr>,
    \<lparr>category = ''json'', correct = False, output_len = 2\<rparr>,
    \<lparr>category = ''math'', correct = False, output_len = 3\<rparr>] \<noteq> []"
    by simp
  have v: "category_stats (accumulate
        [\<lparr>category = ''math'', correct = True, output_len = 1\<rparr>,
         \<lparr>category = ''json'', correct = False, output_len = 2\<rparr>,
         \<lparr>category = ''math'', correct = False, output_len = 3\<rparr>])
      = [(''math'', \<lparr>cat_total = 2, cat_correct = 1\<rparr>),
         (''json'', \<lparr>cat_total = 1, cat_correct = 0\<rparr>)]"
    by code_simp
  from aggregation_invariant [OF n, THEN conjunct1]
  have t: "sum_list (map (cat_total \<circ> snd) (category_stats (accumulate
        [\<lparr>category = ''math'', correct = True, output_len = 1\<rparr>,
         \<lparr>category = ''json'', correct = False, output_len = 2\<rparr>,
         \<lparr>category = ''math'', correct = False, output_len = 3\<rparr>]))) = 3"
    by simp
  from n t v show ?thesis by (intro conjI)
qed

text \<open>
  C7. Folding is insensitive to order: two sequences of results that are permutations
  of each other have the same length, give the same global correct count, and give the
  same mapping from category to its counters.
\<close>

theorem accumulate_permutation:
  "mset rs = mset rs' \<Longrightarrow>
   length rs = length rs'
   \<and> correct_count (accumulate rs) = correct_count (accumulate rs')
   \<and> map_of (category_stats (accumulate rs)) = map_of (category_stats (accumulate rs'))"
proof -
  assume m: "mset rs = mset rs'"
  have len: "length (filter P rs) = length (filter P rs')" for P
  proof -
    have "mset (filter P rs) = mset (filter P rs')"
      using m by (simp only: mset_filter)
    then show ?thesis by (rule mset_eq_length)
  qed
  have s: "set rs = set rs'"
    using m by (rule mset_eq_setD)
  have "map_of (category_stats (accumulate rs)) c
        = map_of (category_stats (accumulate rs')) c" for c
    unfolding accumulate_map_of s len [of "\<lambda>r. category r = c"]
      len [of "\<lambda>r. category r = c \<and> correct r"] ..
  then have "map_of (category_stats (accumulate rs)) = map_of (category_stats (accumulate rs'))"
    by (rule ext)
  moreover have "length rs = length rs'"
    using m by (rule mset_eq_length)
  ultimately show ?thesis
    unfolding accumulate_count len [of correct] by simp
qed

theorem accumulate_permutation_witness:
  "mset [\<lparr>category = ''math'', correct = True, output_len = 1\<rparr>,
         \<lparr>category = ''json'', correct = False, output_len = 2\<rparr>]
     = mset [\<lparr>category = ''json'', correct = False, output_len = 2\<rparr>,
             \<lparr>category = ''math'', correct = True, output_len = 1\<rparr>]
   \<and> category_stats (accumulate [\<lparr>category = ''math'', correct = True, output_len = 1\<rparr>,
         \<lparr>category = ''json'', correct = False, output_len = 2\<rparr>])
     \<noteq> category_stats (accumulate [\<lparr>category = ''json'', correct = False, output_len = 2\<rparr>,
             \<lparr>category = ''math'', correct = True, output_len = 1\<rparr>])
   \<and> map_of (category_stats (accumulate [\<lparr>category = ''math'', correct = True, output_len = 1\<rparr>,
         \<lparr>category = ''json'', correct = False, output_len = 2\<rparr>]))
     = map_of (category_stats (accumulate [\<lparr>category = ''json'', correct = False, output_len = 2\<rparr>,
             \<lparr>category = ''math'', correct = True, output_len = 1\<rparr>]))"
proof -
  have m: "mset [\<lparr>category = ''math'', correct = True, output_len = 1\<rparr>,
         \<lparr>category = ''json'', correct = False, output_len = 2\<rparr>]
     = mset [\<lparr>category = ''json'', correct = False, output_len = 2\<rparr>,
             \<lparr>category = ''math'', correct = True, output_len = 1\<rparr>]"
    by (simp add: add_mset_commute)
  have d: "category_stats (accumulate [\<lparr>category = ''math'', correct = True, output_len = 1\<rparr>,
         \<lparr>category = ''json'', correct = False, output_len = 2\<rparr>])
     \<noteq> category_stats (accumulate [\<lparr>category = ''json'', correct = False, output_len = 2\<rparr>,
             \<lparr>category = ''math'', correct = True, output_len = 1\<rparr>])"
    by code_simp
  from m d accumulate_permutation [OF m, THEN conjunct2, THEN conjunct2]
  show ?thesis by (intro conjI)
qed

section \<open>The persisted report\<close>

lemma percent_nonzero:
  "t \<noteq> 0 \<Longrightarrow> percent c t = Inr (round2 (fmul (fl (of_int c / of_int t)) 100))"
  by (simp add: percent_def truediv_def)

lemma per_category_entries:
  "\<forall>(k, w)\<in>set d. cat_total w \<noteq> 0 \<Longrightarrow>
   per_category d =
     Inr (map (\<lambda>(cat, w).
            (cat, PDict [(''accuracy_percent'',
                           PFloat (round2 (fmul (fl (of_int (cat_correct w) / of_int (cat_total w))) 100))),
                         (''correct'', PInt (cat_correct w)),
                         (''total'', PInt (cat_total w))])) d)"
  by (induction d) (auto simp: percent_nonzero)

lemma runner_entries_entries:
  "\<forall>(k, w)\<in>set d. cat_total w \<noteq> 0 \<Longrightarrow>
   runner_entries d =
     Inr (map (\<lambda>(cat, w).
            (cat, PDict [(''accuracy_percent'',
                           PFloat (round2 (fmul (fl (of_int (cat_correct w) / of_int (cat_total w))) 100))),
                         (''correct'', PInt (cat_correct w)),
                         (''total'', PInt (cat_total w))])) d)"
  by (induction d) (auto simp: percent_nonzero)

lemma runner_step_fold_result:
  "runner_step depth d row =
   category_stats (fold_result \<lparr>correct_count = c, category_stats = d\<rparr>
                     (evaluate_row depth (fst row) (snd row)))"
  by (simp add: runner_step_def fold_result_def Let_def)

lemma runner_fold:
  "foldl (runner_step depth) d rows =
   category_stats (foldl fold_result \<lparr>correct_count = c, category_stats = d\<rparr>
                     (map (\<lambda>(prompt, output). evaluate_row depth prompt output) rows))"
proof (induction rows arbitrary: c d)
  case Nil
  show ?case by simp
next
  case (Cons row rows)
  let ?st = "fold_result \<lparr>correct_count = c, category_stats = d\<rparr>
               (evaluate_row depth (fst row) (snd row))"
  have e: "\<lparr>correct_count = correct_count ?st, category_stats = runner_step depth d row\<rparr> = ?st"
    by (simp add: runner_step_fold_result [of depth d row c])
  have "foldl (runner_step depth) d (row # rows) = foldl (runner_step depth) (runner_step depth d row) rows"
    by simp
  also have "\<dots> = category_stats
      (foldl fold_result \<lparr>correct_count = correct_count ?st, category_stats = runner_step depth d row\<rparr>
         (map (\<lambda>(prompt, output). evaluate_row depth prompt output) rows))"
    by (rule Cons)
  also have "\<dots> = category_stats
      (foldl fold_result ?st (map (\<lambda>(prompt, output). evaluate_row depth prompt output) rows))"
    by (simp only: e)
  finally show ?case
    by (cases row) simp
qed

lemma runner_cats:
  "foldl (runner_step depth) [] rows =
   category_stats (accumulate (map (\<lambda>(prompt, output). evaluate_row depth prompt output) rows))"
  unfolding accumulate_def by (rule runner_fold)

lemma accumulate_totals_nonzero:
  "\<forall>(k, w)\<in>set (category_stats (accumulate rs)). cat_total w \<noteq> 0"
  using accumulate_entry [of _ _ rs] by fastforce

text \<open>
  C8, as the specification states it, fails for the report that
  \<open>model_runner_baseline.py\<close> persists under the same name
  \<open>correctness_summary.json\<close>: for the one-row run below it has the two fields
  \<open>overall_accuracy\<close> and \<open>per_category\<close>, and none of \<open>file\<close>, \<open>total\<close>, \<open>correct\<close>,
  \<open>accuracy_percent\<close>.
\<close>

theorem runner_report_counterexample:
  "cat_summary 100 (PFloat 100) [(''Solve for x'', ''42'')] =
     Inr (PDict [(''overall_accuracy'', PFloat 100),
                 (''per_category'',
                  PDict [(''math'', PDict [(''accuracy_percent'', PFloat 100),
                                           (''correct'', PInt 1),
                                           (''total'', PInt 1)])])])
   \<and> (case cat_summary 100 (PFloat 100) [(''Solve for x'', ''42'')] of
         Inl e \<Rightarrow> [] | Inr report \<Rightarrow> dict_keys report)
       \<noteq> [''file'', ''total'', ''correct'', ''accuracy_percent'', ''per_category'']"
  by code_simp

text \<open>
  C8, amended. For every non-empty run, the report that \<open>correctness_checkers.py\<close>
  persists has exactly the fields \<open>file\<close> (the base name of the CSV path), \<open>total\<close> (the
  number of rows), \<open>correct\<close>, \<open>accuracy_percent\<close> computed as
  \<open>round(correct / total * 100, 2)\<close>, and \<open>per_category\<close>, which maps each observed
  category, in order of first occurrence, to its \<open>accuracy_percent\<close>, \<open>correct\<close> and
  \<open>total\<close>; no exception is raised on the way. The report that
  \<open>model_runner_baseline.py\<close> persists has exactly the fields \<open>overall_accuracy\<close> and
  \<open>per_category\<close>, the latter with the same content.
\<close>

theorem report_fields:
  "rows \<noteq> [] \<Longrightarrow>
   (let st = accumulate (map (\<lambda>(prompt, output). evaluate_row depth prompt output) rows);
        entries = map (\<lambda>(cat, w).
                    (cat, PDict [(''accuracy_percent'',
                                   PFloat (round2 (fmul (fl (of_int (cat_correct w)
                                                             / of_int (cat_total w))) 100))),
                                 (''correct'', PInt (cat_correct w)),
                                 (''total'', PInt (cat_total w))]))
                  (category_stats st)
    in main depth csv_path rows =
         Written (PDict [(''file'', PStr (basename csv_path)),
                         (''total'', PInt (int (length rows))),
                         (''correct'', PInt (correct_count st)),
                         (''accuracy_percent'',
                            PFloat (round2 (fmul (fl (of_int (correct_count st)
                                                      / of_int (int (length rows)))) 100))),
                         (''per_category'', PDict entries)])
       \<and> cat_summary depth overall rows =
           Inr (PDict [(''overall_accuracy'', overall), (''per_category'', PDict entries)])
       \<and> map fst entries = map fst (category_stats st)
       \<and> distinct (map fst entries)
       \<and> set (map fst entries) = (\<lambda>(prompt, output). category (evaluate_row depth prompt output)) ` set rows)"
proof -
  assume n: "rows \<noteq> []"
  let ?rs = "map (\<lambda>(prompt, output). evaluate_row depth prompt output) rows"
  have t: "int (length rows) \<noteq> 0"
    using n by simp
  have k: "map fst (map (\<lambda>(cat, w). (cat, f cat w)) d) = map fst d" for f :: "string \<Rightarrow> cat_stats \<Rightarrow> pyval" and d
    by (induction d) auto
  have s: "category ` set ?rs = (\<lambda>(prompt, output). category (evaluate_row depth prompt output)) ` set rows"
    by (auto simp: image_iff split_beta)
  show ?thesis
    unfolding Let_def main_def cat_summary_def runner_cats
      per_category_entries [OF accumulate_totals_nonzero]
      runner_entries_entries [OF accumulate_totals_nonzero]
      percent_nonzero [OF t] k
    using n accumulate_keys [of ?rs] unfolding s by simp
qed

theorem report_fields_witness:
  "[(''Solve for x'', ''42''), (''Write a poem'', ''short'')] \<noteq> []
   \<and> (case main 100 ''runs/outputs.csv'' [(''Solve for x'', ''42''), (''Write a poem'', ''short'')] of
         Written report \<Rightarrow> dict_keys report | _ \<Rightarrow> [])
       = [''file'', ''total'', ''correct'', ''accuracy_percent'', ''per_category'']
   \<and> (case cat_summary 100 (PFloat 50) [(''Solve for x'', ''42''), (''Write a poem'', ''short'')] of
         Inr report \<Rightarrow> dict_keys report | Inl e \<Rightarrow> [])
       = [''overall_accuracy'', ''per_category'']"
proof -
  have n: "[(''Solve for x'', ''42''), (''Write a poem'', ''short'')] \<noteq> []"
    by simp
  note r = report_fields [OF n, of 100 "''runs/outputs.csv''" "PFloat 50", unfolded Let_def]
  have m: "(case main 100 ''runs/outputs.csv'' [(''Solve for x'', ''42''), (''Write a poem'', ''short'')] of
         Written report \<Rightarrow> dict_keys report | _ \<Rightarrow> [])
       = [''file'', ''total'', ''correct'', ''accuracy_percent'', ''per_category'']"
    unfolding r [THEN conjunct1] by simp
  have c: "(case cat_summary 100 (PFloat 50) [(''Solve for x'', ''42''), (''Write a poem'', ''short'')] of
         Inr report \<Rightarrow> dict_keys report | Inl e \<Rightarrow> [])
       = [''overall_accuracy'', ''per_category'']"
    unfolding r [THEN conjunct2, THEN conjunct1] by simp
  from n m c show ?thesis by (intro conjI)
qed

text \<open>
  The end-to-end scenario of the specification: two rows, one math and one writing, both
  correct, give 100.0 overall and in each category.
\<close>

lemma end_to_end_scenario:
  "main 100 ''outputs.csv''
     [(''What is the derivative of x^2?'', ''2x''),
      (''Write a poem about the sea'',
       ''one two three four five six seven eight nine ten eleven.'')] =
   Written (PDict
     [(''file'', PStr ''outputs.csv''), (''total'', PInt 2), (''correct'', PInt 2),
      (''accuracy_percent'', PFloat 100),
      (''per_category'',
       PDict [(''math'', PDict [(''accuracy_percent'', PFloat 100), (''correct'', PInt 1),
                                (''total'', PInt 1)]),
              (''writing'', PDict [(''accuracy_percent'', PFloat 100), (''correct'', PInt 1),
                                   (''total'', PInt 1)])])])"
  by code_simp

end
